theory Spec2Isabelle
  imports Main "HOL-Library.AList" "HOL-Library.Sublist"
begin

section \<open>Configuration data (pkg/config/config.go)\<close>

text \<open>
  The settings store of the program is viper's. A setting is a dynamically typed value
  (Go's \<open>interface{}\<close>); the kinds that a YAML scalar, a flag or a default can produce are
  kept apart, since \<open>GetString\<close> renders them differently.
\<close>

datatype cfg_value =
    VBool bool
  | VInt int
  | VStr string
  | VList "cfg_value list"
  | VMap "(string \<times> cfg_value) list"

type_synonym settings = "(string \<times> cfg_value) list"

text \<open>
  The layers of viper that the program uses, in viper's order of precedence: the values
  bound from command-line flags and environment variables (\<open>overrides\<close>), the content of
  the configuration file that \<open>ReadInConfig\<close> loads, and the defaults registered with
  \<open>SetDefault\<close>. Keys are the dotted paths (\<open>server.namespace\<close>). \<open>configFile\<close> is the
  path given to \<open>SetConfigFile\<close>, \<open>configName\<close> the name given to \<open>SetConfigName\<close>.
\<close>

record viper =
  overrides :: settings
  config :: settings
  defaults :: settings
  configFile :: string
  configName :: string

definition find_key :: "viper \<Rightarrow> string \<Rightarrow> cfg_value option" where
  "find_key v key =
     (case map_of (overrides v) key of
        Some x \<Rightarrow> Some x
      | None \<Rightarrow>
         (case map_of (config v) key of
            Some x \<Rightarrow> Some x
          | None \<Rightarrow> map_of (defaults v) key))"

definition IsSet :: "viper \<Rightarrow> string \<Rightarrow> bool" where
  "IsSet v key = (find_key v key \<noteq> None)"

text \<open>
  The types of the packages \<open>webhook\<close>, \<open>graffiti\<close> and \<open>healthcheck\<close> are declared
  outside the files at hand; the records below keep the fields that the code and the
  configuration document name: the registration's name, the selector strings of the
  matcher, and the two maps of additions (ordered, as the configuration lists them).
\<close>

record Registration =
  Name :: string

record Matcher =
  LabelSelectors :: "string list"
  FieldSelectors :: "string list"

record Additions =
  Labels :: "(string \<times> string) list"
  Annotations :: "(string \<times> string) list"

record HealthChecker =
  Port :: int
  Path :: string

record Server =
  WebhookPort :: int
  CompanyDomain :: string
  Namespace :: string
  Service :: string
  CACertPath :: string
  ServerCertPath :: string
  ServerKeyPath :: string

record Rule =
  Registration :: Registration
  Matcher :: Matcher
  Additions :: Additions

record Configuration =
  LogLevel :: string
  CheckExisting :: bool
  HealthChecker :: HealthChecker
  Server :: Server
  Rules :: "Rule list"

text \<open>
  What validation consults outside the configuration: the table \<open>log.LogLevels\<close> and the
  two selector parsers of package \<open>graffiti\<close>, each returning the parse error if any.
\<close>

record externals =
  LogLevels :: "string \<rightharpoonup> int"
  ValidateLabelSelector :: "string \<Rightarrow> string option"
  ValidateFieldSelector :: "string \<Rightarrow> string option"

section \<open>Errors\<close>

text \<open>
  The first six are the errors of \<open>ValidateConfig\<close>; then the errors of loading
  (\<open>FailedToUnmarshal\<close> for \<open>viper.Unmarshal\<close> with the key at fault,
  \<open>FailedToUnmarshalKey\<close> for \<open>viper.UnmarshalKey\<close> with the section and the key at
  fault), the one of \<open>initWebhookServer\<close>, and the errors that the packages \<open>webhook\<close>
  and \<open>existing\<close> hand back, kept as their text.
\<close>

datatype error =
    InvalidLogLevel string
  | MissingRequiredParameter
  | NoAdditions string
  | DuplicateRuleName string
  | InvalidLabelSelector string string string
  | InvalidFieldSelector string string string
  | FailedToUnmarshal string
  | FailedToUnmarshalKey string string
  | FailedToLoadCA
  | External string

fun message :: "error \<Rightarrow> string" where
  "message (InvalidLogLevel l) = l @ '' is not a valid log-level''"
| "message MissingRequiredParameter = ''missing required parameter''"
| "message (NoAdditions n) =
     ''rule '' @ n @ '' is invalid - it does not contain any additional labels or annotations''"
| "message (DuplicateRuleName n) =
     ''rule '' @ n @ '' is invalid - found duplicate rules with the same name, they must be unique''"
| "message (InvalidLabelSelector n s e) =
     ''rule '' @ n @ '' is invalid - contains invalid label selector '' @ [CHR 0x27] @ s @ [CHR 0x27]
       @ '': '' @ e"
| "message (InvalidFieldSelector n s e) =
     ''rule '' @ n @ '' is invalid - contains invalid field selector '' @ [CHR 0x27] @ s @ [CHR 0x27]
       @ '': '' @ e"
| "message (FailedToUnmarshal k) = ''Failed to unmarshal configuration: '' @ k"
| "message (FailedToUnmarshalKey section k) = ''failed to unmarshal '' @ section @ '': '' @ k"
| "message FailedToLoadCA = ''failed to load ca from file''"
| "message (External e) = e"

section \<open>ValidateConfig\<close>

definition validateLogArgs :: "externals \<Rightarrow> Configuration \<Rightarrow> error option" where
  "validateLogArgs x c =
     (case LogLevels x (LogLevel c) of
        None \<Rightarrow> Some (InvalidLogLevel (LogLevel c))
      | Some _ \<Rightarrow> None)"

text \<open>The loop over the required parameters: the first one that is not set ends it.\<close>

fun requireSet :: "viper \<Rightarrow> string list \<Rightarrow> error option" where
  "requireSet v [] = None"
| "requireSet v (p # ps) =
     (if \<not> IsSet v p then Some MissingRequiredParameter else requireSet v ps)"

definition validateWebhookArgs :: "viper \<Rightarrow> error option" where
  "validateWebhookArgs v = requireSet v [''server.namespace'', ''server.service'']"

text \<open>The inner loops over the selectors of one rule: the first selector that fails to parse.\<close>

fun firstInvalid :: "(string \<Rightarrow> string option) \<Rightarrow> string list \<Rightarrow> (string \<times> string) option" where
  "firstInvalid validate [] = None"
| "firstInvalid validate (selector # rest) =
     (case validate selector of
        Some err \<Rightarrow> Some (selector, err)
      | None \<Rightarrow> firstInvalid validate rest)"

abbreviation ruleName :: "Rule \<Rightarrow> string" where
  "ruleName rule \<equiv> Name (Registration rule)"

text \<open>
  The loop of \<open>validateRules\<close>, with the map \<open>existingRuleNames\<close> as it stands when the
  loop reaches the remaining rules.
\<close>

fun validateRulesFrom :: "externals \<Rightarrow> (string \<rightharpoonup> bool) \<Rightarrow> Rule list \<Rightarrow> error option" where
  "validateRulesFrom x existingRuleNames [] = None"
| "validateRulesFrom x existingRuleNames (rule # rest) =
     (if length (Labels (Additions rule)) = 0 \<and> length (Annotations (Additions rule)) = 0
      then Some (NoAdditions (ruleName rule))
      else if existingRuleNames (ruleName rule) \<noteq> None
      then Some (DuplicateRuleName (ruleName rule))
      else
        (case firstInvalid (ValidateLabelSelector x) (LabelSelectors (Matcher rule)) of
           Some (selector, err) \<Rightarrow> Some (InvalidLabelSelector (ruleName rule) selector err)
         | None \<Rightarrow>
            (case firstInvalid (ValidateFieldSelector x) (FieldSelectors (Matcher rule)) of
               Some (selector, err) \<Rightarrow> Some (InvalidFieldSelector (ruleName rule) selector err)
             | None \<Rightarrow>
                validateRulesFrom x (existingRuleNames(ruleName rule \<mapsto> True)) rest)))"

definition validateRules :: "externals \<Rightarrow> Configuration \<Rightarrow> error option" where
  "validateRules x c = validateRulesFrom x Map.empty (Rules c)"

definition ValidateConfig :: "externals \<Rightarrow> viper \<Rightarrow> Configuration \<Rightarrow> error option" where
  "ValidateConfig x v c =
     (case validateLogArgs x c of
        Some err \<Rightarrow> Some err
      | None \<Rightarrow>
         (case validateWebhookArgs v of
            Some err \<Rightarrow> Some err
          | None \<Rightarrow> validateRules x c))"

section \<open>Reading settings\<close>

text \<open>
  \<open>viper.GetString\<close> renders the value found with \<open>cast.ToString\<close>: a boolean as
  \<open>true\<close> or \<open>false\<close>, an integer in decimal, and the empty string for a missing key or
  a value that is not a scalar.
\<close>

fun digits :: "nat \<Rightarrow> string" where
  "digits n =
     (if n < 10 then [''0123456789'' ! n]
      else digits (n div 10) @ [''0123456789'' ! (n mod 10)])"

declare digits.simps [simp del]

definition Itoa :: "int \<Rightarrow> string" where
  "Itoa i = (if i < 0 then CHR ''-'' # digits (nat (- i)) else digits (nat i))"

fun ToString :: "cfg_value option \<Rightarrow> string" where
  "ToString None = []"
| "ToString (Some (VBool b)) = (if b then ''true'' else ''false'')"
| "ToString (Some (VInt i)) = Itoa i"
| "ToString (Some (VStr s)) = s"
| "ToString (Some (VList xs)) = []"
| "ToString (Some (VMap kvs)) = []"

definition GetString :: "viper \<Rightarrow> string \<Rightarrow> string" where
  "GetString v key = ToString (find_key v key)"

text \<open>\<open>strconv.ParseBool\<close>: the spellings Go accepts for a boolean.\<close>

definition ParseBool :: "string \<Rightarrow> bool option" where
  "ParseBool s =
     (if s \<in> set [''1'', ''t'', ''T'', ''TRUE'', ''true'', ''True''] then Some True
      else if s \<in> set [''0'', ''f'', ''F'', ''FALSE'', ''false'', ''False''] then Some False
      else None)"

text \<open>
  \<open>viper.GetBool\<close> reads a setting as a boolean with \<open>cast.ToBool\<close>: these are the
  representations of a setting that count as true.
\<close>

fun ToBool :: "cfg_value option \<Rightarrow> bool" where
  "ToBool None = False"
| "ToBool (Some (VBool b)) = b"
| "ToBool (Some (VInt i)) = (i \<noteq> 0)"
| "ToBool (Some (VStr s)) = (ParseBool s = Some True)"
| "ToBool (Some (VList xs)) = False"
| "ToBool (Some (VMap kvs)) = False"

definition GetBool :: "viper \<Rightarrow> string \<Rightarrow> bool" where
  "GetBool v key = ToBool (find_key v key)"

text \<open>
  The decoding that lies outside the program: \<open>strconv.ParseInt\<close> on the text of a
  setting, and mapstructure's decoding of the \<open>rules\<close> list into the rule types of the
  packages \<open>webhook\<close> and \<open>graffiti\<close>.
\<close>

record decoders =
  ParseInt :: "string \<Rightarrow> int option"
  DecodeRules :: "cfg_value \<Rightarrow> string + Rule list"

text \<open>
  Go's \<open>int\<close> has 64 bits. An integer setting that does not fit (YAML reads a number
  from \<open>2^63\<close> on as an unsigned value) wraps around when it is converted to \<open>int\<close>.
\<close>

definition int64 :: "int \<Rightarrow> int" where
  "int64 i = (i + 2 ^ 63) mod 2 ^ 64 - 2 ^ 63"

fun ToInt :: "decoders \<Rightarrow> cfg_value option \<Rightarrow> int" where
  "ToInt d None = 0"
| "ToInt d (Some (VBool b)) = (if b then 1 else 0)"
| "ToInt d (Some (VInt i)) = int64 i"
| "ToInt d (Some (VStr s)) = (case ParseInt d s of Some i \<Rightarrow> int64 i | None \<Rightarrow> 0)"
| "ToInt d (Some (VList xs)) = 0"
| "ToInt d (Some (VMap kvs)) = 0"

definition GetInt :: "decoders \<Rightarrow> viper \<Rightarrow> string \<Rightarrow> int" where
  "GetInt d v key = ToInt d (find_key v key)"

section \<open>Writing settings\<close>

definition SetDefault :: "string \<Rightarrow> cfg_value \<Rightarrow> viper \<Rightarrow> viper" where
  "SetDefault key val v = v\<lparr>defaults := AList.update key val (defaults v)\<rparr>"

definition SetConfigFile :: "string \<Rightarrow> viper \<Rightarrow> viper" where
  "SetConfigFile file v = v\<lparr>configFile := file\<rparr>"

definition SetConfigName :: "string \<Rightarrow> viper \<Rightarrow> viper" where
  "SetConfigName name v = v\<lparr>configName := name, configFile := []\<rparr>"

text \<open>
  \<open>ReadInConfig\<close> loads the file named by \<open>SetConfigFile\<close>. The file system is a function
  from a path to the settings the file parses to, \<open>None\<close> when the file cannot be read or
  parsed. With no file named, viper searches its configuration paths for \<open>configName\<close>;
  the program registers no such path, so the search finds nothing.
\<close>

definition ReadInConfig :: "(string \<Rightarrow> settings option) \<Rightarrow> viper \<Rightarrow> viper option" where
  "ReadInConfig fs v =
     (if configFile v = [] then None
      else (case fs (configFile v) of
              None \<Rightarrow> None
            | Some doc \<Rightarrow> Some (v\<lparr>config := doc\<rparr>)))"

section \<open>Decoding the settings into the configuration\<close>

text \<open>
  viper decodes with mapstructure in its weakly typed mode: a string field accepts a
  boolean (as \<open>1\<close> or \<open>0\<close>) and an integer, an integer field accepts a boolean and the text
  of an integer, a boolean field accepts an integer and the text of a boolean. A field
  whose key is not set keeps Go's zero value.
\<close>

fun decodeString :: "cfg_value \<Rightarrow> string option" where
  "decodeString (VStr s) = Some s"
| "decodeString (VBool b) = Some (if b then ''1'' else ''0'')"
| "decodeString (VInt i) = Some (Itoa i)"
| "decodeString (VList xs) = None"
| "decodeString (VMap kvs) = None"

fun decodeInt :: "decoders \<Rightarrow> cfg_value \<Rightarrow> int option" where
  "decodeInt d (VInt i) = Some (int64 i)"
| "decodeInt d (VBool b) = Some (if b then 1 else 0)"
| "decodeInt d (VStr s) = map_option int64 (ParseInt d (if s = [] then ''0'' else s))"
| "decodeInt d (VList xs) = None"
| "decodeInt d (VMap kvs) = None"

fun decodeBool :: "cfg_value \<Rightarrow> bool option" where
  "decodeBool (VBool b) = Some b"
| "decodeBool (VInt i) = Some (i \<noteq> 0)"
| "decodeBool (VStr s) =
     (case ParseBool s of
        Some b \<Rightarrow> Some b
      | None \<Rightarrow> if s = [] then Some False else None)"
| "decodeBool (VList xs) = None"
| "decodeBool (VMap kvs) = None"

definition and_then :: "error + 'a \<Rightarrow> ('a \<Rightarrow> error + 'b) \<Rightarrow> error + 'b" where
  "and_then m f = (case m of Inl e \<Rightarrow> Inl e | Inr a \<Rightarrow> f a)"

definition field :: "(string \<Rightarrow> error) \<Rightarrow> (cfg_value \<Rightarrow> 'a option) \<Rightarrow> 'a \<Rightarrow> viper \<Rightarrow> string \<Rightarrow> error + 'a" where
  "field fail decode zero v key =
     (case find_key v key of
        None \<Rightarrow> Inr zero
      | Some val \<Rightarrow>
         (case decode val of
            None \<Rightarrow> Inl (fail key)
          | Some a \<Rightarrow> Inr a))"

definition decodeServer :: "(string \<Rightarrow> error) \<Rightarrow> decoders \<Rightarrow> viper \<Rightarrow> error + Server" where
  "decodeServer fail d v =
     and_then (field fail (decodeInt d) 0 v ''server.port'') (\<lambda>port.
     and_then (field fail decodeString [] v ''server.company-domain'') (\<lambda>domain.
     and_then (field fail decodeString [] v ''server.namespace'') (\<lambda>namespace.
     and_then (field fail decodeString [] v ''server.service'') (\<lambda>service.
     and_then (field fail decodeString [] v ''server.ca-cert-path'') (\<lambda>ca.
     and_then (field fail decodeString [] v ''server.cert-path'') (\<lambda>cert.
     and_then (field fail decodeString [] v ''server.key-path'') (\<lambda>key.
     Inr \<lparr>WebhookPort = port, CompanyDomain = domain, Namespace = namespace,
          Service = service, CACertPath = ca, ServerCertPath = cert,
          ServerKeyPath = key\<rparr>)))))))"

definition decodeHealthChecker :: "(string \<Rightarrow> error) \<Rightarrow> decoders \<Rightarrow> viper \<Rightarrow> string \<Rightarrow> error + HealthChecker" where
  "decodeHealthChecker fail d v section =
     and_then (field fail (decodeInt d) 0 v (section @ ''.port'')) (\<lambda>port.
     and_then (field fail decodeString [] v (section @ ''.path'')) (\<lambda>path.
     Inr \<lparr>Port = port, Path = path\<rparr>))"

definition decodeRules :: "(string \<Rightarrow> error) \<Rightarrow> decoders \<Rightarrow> viper \<Rightarrow> error + Rule list" where
  "decodeRules fail d v =
     (case find_key v ''rules'' of
        None \<Rightarrow> Inr []
      | Some val \<Rightarrow>
         (case DecodeRules d val of
            Inl e \<Rightarrow> Inl (fail ''rules'')
          | Inr rs \<Rightarrow> Inr rs))"

definition AllKeys :: "viper \<Rightarrow> string list" where
  "AllKeys v = map fst (overrides v) @ map fst (config v) @ map fst (defaults v)"

definition serverKeys :: "string list" where
  "serverKeys =
     [''server.port'', ''server.company-domain'', ''server.namespace'', ''server.service'',
      ''server.ca-cert-path'', ''server.cert-path'', ''server.key-path'']"

definition knownKeys :: "string list" where
  "knownKeys =
     [''log-level'', ''check-existing'', ''health-checker.port'', ''health-checker.path'']
     @ serverKeys @ [''rules'']"

text \<open>
  \<open>viper.Unmarshal\<close> with \<open>ErrorUnused\<close>: every key of the merged settings has to be a
  field of \<open>Configuration\<close>.
\<close>

definition Unmarshal :: "decoders \<Rightarrow> viper \<Rightarrow> error + Configuration" where
  "Unmarshal d v =
     (case filter (\<lambda>k. k \<notin> set knownKeys) (AllKeys v) of
        k # ks \<Rightarrow> Inl (FailedToUnmarshal k)
      | [] \<Rightarrow>
         and_then (field FailedToUnmarshal decodeString [] v ''log-level'') (\<lambda>level.
         and_then (field FailedToUnmarshal decodeBool False v ''check-existing'') (\<lambda>existing.
         and_then (decodeHealthChecker FailedToUnmarshal d v ''health-checker'') (\<lambda>health.
         and_then (decodeServer FailedToUnmarshal d v) (\<lambda>server.
         and_then (decodeRules FailedToUnmarshal d v) (\<lambda>rules.
         Inr \<lparr>LogLevel = level, CheckExisting = existing, HealthChecker = health,
              Server = server, Rules = rules\<rparr>))))))"

text \<open>
  \<open>viper.Get\<close> on the name of a section gives the value of the first layer that has
  it: a flag or environment value bound to the name itself, else the section of the
  configuration file, else the section of the defaults. The layers are not merged, and a
  flag or environment value of a key below the section is no part of it. A section
  is written in a layer as the entries whose keys lie below it, or as one mapping at the
  name of the section.
\<close>

datatype found = NotFound | NotAMap cfg_value | FoundSection settings

fun as_section :: "string \<Rightarrow> cfg_value \<Rightarrow> found" where
  "as_section section (VMap kvs) = FoundSection (map (\<lambda>(k, x). (section @ ''.'' @ k, x)) kvs)"
| "as_section section (VBool b) = NotAMap (VBool b)"
| "as_section section (VInt i) = NotAMap (VInt i)"
| "as_section section (VStr s) = NotAMap (VStr s)"
| "as_section section (VList xs) = NotAMap (VList xs)"

definition section_of :: "string \<Rightarrow> settings \<Rightarrow> settings" where
  "section_of section layer = filter (\<lambda>(k, x). prefix (section @ ''.'') k) layer"

definition in_layer :: "string \<Rightarrow> settings \<Rightarrow> found" where
  "in_layer section layer =
     (case map_of layer section of
        Some x \<Rightarrow> as_section section x
      | None \<Rightarrow>
         (case section_of section layer of
            [] \<Rightarrow> NotFound
          | kv # kvs \<Rightarrow> FoundSection (kv # kvs)))"

definition GetSection :: "viper \<Rightarrow> string \<Rightarrow> found" where
  "GetSection v section =
     (case map_of (overrides v) section of
        Some x \<Rightarrow> as_section section x
      | None \<Rightarrow>
         (case in_layer section (config v) of
            NotFound \<Rightarrow> in_layer section (defaults v)
          | NotAMap x \<Rightarrow> NotAMap x
          | FoundSection kvs \<Rightarrow> FoundSection kvs))"

text \<open>The store that holds the entries of one section and nothing else.\<close>

definition only_section :: "settings \<Rightarrow> viper" where
  "only_section kvs =
     \<lparr>overrides = [], config = kvs, defaults = [], configFile = [], configName = []\<rparr>"

text \<open>
  \<open>viper.UnmarshalKey\<close> with \<open>ErrorUnused\<close> decodes the value that \<open>Get\<close> gives for the
  section, and nothing else: every key of that value has to be a field of the target,
  a field without a key keeps its zero value, a value that is not a mapping is an
  error, and with no value the target is left as it is.
\<close>

definition UnmarshalKey :: "string \<Rightarrow> string list \<Rightarrow> viper \<Rightarrow> (viper \<Rightarrow> error + 'a) \<Rightarrow> error + 'a" where
  "UnmarshalKey section known v decode =
     (case GetSection v section of
        NotFound \<Rightarrow> decode (only_section [])
      | NotAMap x \<Rightarrow> Inl (FailedToUnmarshalKey section section)
      | FoundSection kvs \<Rightarrow>
         (case filter (\<lambda>k. k \<notin> set known) (map fst kvs) of
            k # ks \<Rightarrow> Inl (FailedToUnmarshalKey section k)
          | [] \<Rightarrow> decode (only_section kvs)))"

section \<open>LoadConfig (pkg/config/config.go)\<close>

definition DefaultLogLevel :: string where
  "DefaultLogLevel = ''info''"

definition defaultConfigPath :: string where
  "defaultConfigPath = ''/config''"

definition config_setDefaults :: "viper \<Rightarrow> viper" where
  "config_setDefaults v0 =
     (let v1 = SetDefault ''log-level'' (VStr DefaultLogLevel) v0;
          v2 = SetDefault ''check-existing'' (VBool False) v1;
          v3 = SetDefault ''server.port'' (VInt 8443) v2;
          v4 = SetDefault ''health-checker.port'' (VInt 8080) v3;
          v5 = SetDefault ''health-checker.path'' (VStr ''/healthz'') v4;
          v6 = SetDefault ''server.company-domain'' (VStr ''acme.com'') v5;
          v7 = SetDefault ''server.ca-cert-path'' (VStr ''/ca.pem'') v6;
          v8 = SetDefault ''server.cert-path'' (VStr ''/server.pem'') v7;
          v9 = SetDefault ''server.cert-path'' (VStr ''/key.pem'') v8
      in v9)"

definition config_unmarshalFromViperStrict :: "decoders \<Rightarrow> viper \<Rightarrow> error + Configuration" where
  "config_unmarshalFromViperStrict d v = Unmarshal d v"

text \<open>\<open>os.Exit\<close> ends the process with a status; otherwise the function returns.\<close>

datatype 'a outcome = Exit nat | Return 'a

definition config_LoadConfig ::
  "decoders \<Rightarrow> (string \<Rightarrow> settings option) \<Rightarrow> string \<Rightarrow> viper \<Rightarrow> viper \<times> (error + Configuration) outcome" where
  "config_LoadConfig d fs file v0 =
     (let v1 = config_setDefaults v0;
          v2 = (if file \<noteq> [] then SetConfigFile file v1 else SetConfigName defaultConfigPath v1)
      in (case ReadInConfig fs v2 of
            None \<Rightarrow> (v2, Exit 1)
          | Some v3 \<Rightarrow> (v3, Return (config_unmarshalFromViperStrict d v3))))"

section \<open>The command (cmd/command.go)\<close>

definition cmd_setDefaults :: "viper \<Rightarrow> viper" where
  "cmd_setDefaults v0 =
     (let v1 = SetDefault ''log-level'' (VStr DefaultLogLevel) v0;
          v2 = SetDefault ''check-existing'' (VBool False) v1;
          v3 = SetDefault ''server.port'' (VInt 8443) v2;
          v4 = SetDefault ''health-checker.port'' (VInt 8080) v3;
          v5 = SetDefault ''health-checker.path'' (VStr ''/healthz'') v4;
          v6 = SetDefault ''server.company-domain'' (VStr ''acme.com'') v5;
          v7 = SetDefault ''server.ca-cert-path'' (VStr ''/ca-cert'') v6;
          v8 = SetDefault ''server.cert-path'' (VStr ''/server-cert'') v7;
          v9 = SetDefault ''server.key-path'' (VStr ''/server-key'') v8
      in v9)"

definition cmd_unmarshalFromViperStrict :: "decoders \<Rightarrow> viper \<Rightarrow> error + Configuration" where
  "cmd_unmarshalFromViperStrict d v =
     and_then (UnmarshalKey ''server'' serverKeys v
                 (decodeServer (FailedToUnmarshalKey ''server'') d)) (\<lambda>server.
     and_then (UnmarshalKey ''health-check'' [''health-check.port'', ''health-check.path''] v
                 (\<lambda>v. decodeHealthChecker (FailedToUnmarshalKey ''health-check'') d v ''health-check''))
       (\<lambda>health.
     and_then (decodeRules (FailedToUnmarshalKey ''rules'') d v) (\<lambda>rules.
     Inr \<lparr>LogLevel = GetString v ''log-level'',
          CheckExisting =
            (if \<not> IsSet v ''check-existing'' \<or> GetString v ''check-existing'' \<noteq> ''true''
             then False else True),
          HealthChecker = health, Server = server, Rules = rules\<rparr>)))"

definition cmd_loadConfig ::
  "decoders \<Rightarrow> (string \<Rightarrow> settings option) \<Rightarrow> string \<Rightarrow> viper \<Rightarrow> viper \<times> (error + Configuration) outcome" where
  "cmd_loadConfig d fs file v0 =
     (let v1 = cmd_setDefaults v0;
          v2 = (if file \<noteq> [] then SetConfigFile file v1 else SetConfigName defaultConfigPath v1)
      in (case ReadInConfig fs v2 of
            None \<Rightarrow> (v2, Exit 1)
          | Some v3 \<Rightarrow> (v3, Return (cmd_unmarshalFromViperStrict d v3))))"

text \<open>
  The calls that the command makes to its collaborators (the packages \<open>healthcheck\<close>,
  \<open>webhook\<close> and \<open>existing\<close>, and the clock), in the order in which it makes them.
\<close>

datatype event =
    StartHealthChecker int string
  | NewServer string string string int
  | AddGraffitiRule string
  | StartWebhookServer string string
  | Sleep nat
  | RegisterHook string
  | InitKubeClients
  | ApplyRulesAgainstExistingObjects "string list"

text \<open>
  What the collaborators answer: the configuration files and the certificate files on
  disk, whether the in-cluster client can be built, and the results of registering a rule
  with the API server and of building the clients of package \<open>existing\<close>.
\<close>

record world =
  configFiles :: "string \<Rightarrow> settings option"
  readFile :: "string \<Rightarrow> string option"
  inCluster :: bool
  registerHookResult :: "Registration \<Rightarrow> error option"
  initKubeClientsResult :: "error option"

text \<open>The second loop of \<open>initWebhookServer\<close>: the first registration that fails ends it.\<close>

fun registerHooks :: "world \<Rightarrow> Rule list \<Rightarrow> error option \<times> event list" where
  "registerHooks w [] = (None, [])"
| "registerHooks w (rule # rest) =
     (case registerHookResult w (Registration rule) of
        Some err \<Rightarrow> (Some err, [RegisterHook (ruleName rule)])
      | None \<Rightarrow>
         (case registerHooks w rest of
            (result, calls) \<Rightarrow> (result, RegisterHook (ruleName rule) # calls)))"

definition initWebhookServer :: "decoders \<Rightarrow> world \<Rightarrow> viper \<Rightarrow> Configuration \<Rightarrow> error option \<times> event list" where
  "initWebhookServer d w v c =
     (case readFile w (GetString v ''server.ca-cert-path'') of
        None \<Rightarrow> (Some FailedToLoadCA, [])
      | Some ca \<Rightarrow>
         (case registerHooks w (Rules c) of
            (result, calls) \<Rightarrow>
              (result,
               [NewServer (GetString v ''server.company-domain'') (GetString v ''server.namespace'')
                  (GetString v ''server.service'') (GetInt d v ''server.port'')]
               @ map (\<lambda>rule. AddGraffitiRule (ruleName rule)) (Rules c)
               @ [StartWebhookServer (GetString v ''server.cert-path'') (GetString v ''server.key-path''),
                  Sleep 2]
               @ calls)))"

definition initExistingCheck :: "world \<Rightarrow> viper \<Rightarrow> Configuration \<Rightarrow> error option \<times> event list" where
  "initExistingCheck w v c =
     (if \<not> IsSet v ''check-existing'' \<or> GetString v ''check-existing'' \<noteq> ''true''
      then (None, [])
      else (case initKubeClientsResult w of
              Some err \<Rightarrow> (Some err, [InitKubeClients])
            | None \<Rightarrow>
               (None, [InitKubeClients, ApplyRulesAgainstExistingObjects (map ruleName (Rules c))])))"

text \<open>
  How \<open>runRootCmd\<close> ends: the process exits with a status, a fatal log line ends it with
  the message and the error, \<open>getKubeClients\<close> panics, or the command has started
  everything and waits for the interrupt.
\<close>

datatype ending = Exited nat | Fatal string error | Panic | WaitingForInterrupt

definition runRootCmd :: "decoders \<Rightarrow> externals \<Rightarrow> world \<Rightarrow> viper \<Rightarrow> event list \<times> ending" where
  "runRootCmd d x w v0 =
     (case cmd_loadConfig d (configFiles w) (GetString v0 ''config'') v0 of
        (v, Exit status) \<Rightarrow> ([], Exited status)
      | (v, Return (Inl err)) \<Rightarrow> ([], Fatal ''failed to load config'' err)
      | (v, Return (Inr c)) \<Rightarrow>
         (case ValidateConfig x v c of
            Some err \<Rightarrow> ([], Fatal ''failed to validate config'' err)
          | None \<Rightarrow>
             if \<not> inCluster w then ([], Panic)
             else
               (let health = [StartHealthChecker (GetInt d v ''health-checker.port'')
                                (GetString v ''health-checker.path'')]
                in (case initWebhookServer d w v c of
                      (Some err, served) \<Rightarrow>
                        (health @ served, Fatal ''webhook server failed to start'' err)
                    | (None, served) \<Rightarrow>
                       (case initExistingCheck w v c of
                          (Some err, checked) \<Rightarrow>
                            (health @ served @ checked,
                             Fatal ''failed to check existing namespaces'' err)
                        | (None, checked) \<Rightarrow>
                            (health @ served @ checked, WaitingForInterrupt))))))"

section \<open>The object document\<close>

text \<open>
  Modelled from the spec: package \<open>graffiti\<close> (the selector evaluator, the matcher, the
  patch synthesizer and the rule engine) is not among the source files. The definitions
  of this section and of the next four follow sections 3, 4.1 to 4.4, 6 and 8 of the
  specification.

  An object is a dynamically typed tree: mappings, sequences, strings, numbers and
  booleans. A mapping keeps its entries in order; the first entry of a key is the one
  that a lookup finds.
\<close>

datatype json =
    JNull
  | JBool bool
  | JNum int
  | JStr string
  | JArr "json list"
  | JObj "(string \<times> json) list"

fun member :: "string \<Rightarrow> json \<Rightarrow> json option" where
  "member k (JObj kvs) = map_of kvs k"
| "member k JNull = None"
| "member k (JBool b) = None"
| "member k (JNum n) = None"
| "member k (JStr s) = None"
| "member k (JArr xs) = None"

definition metadata_member :: "string \<Rightarrow> json \<Rightarrow> json option" where
  "metadata_member name obj =
     (case member ''metadata'' obj of
        None \<Rightarrow> None
      | Some meta \<Rightarrow> member name meta)"

text \<open>
  The submap \<open>metadata.labels\<close> or \<open>metadata.annotations\<close> of an object; it is absent
  when the object has no mapping there.
\<close>

fun as_mapping :: "json option \<Rightarrow> (string \<times> json) list option" where
  "as_mapping (Some (JObj kvs)) = Some kvs"
| "as_mapping other = None"

definition submap :: "string \<Rightarrow> json \<Rightarrow> (string \<times> json) list option" where
  "submap name obj = as_mapping (metadata_member name obj)"

definition has_metadata :: "json \<Rightarrow> bool" where
  "has_metadata obj = (as_mapping (member ''metadata'' obj) \<noteq> None)"

section \<open>Selectors and the matcher\<close>

text \<open>
  Modelled from the spec: the selector evaluator and the matcher of package \<open>graffiti\<close>
  (sections 4.1 and 4.2), which are not among the source files.
  Selectors are parsed when the configuration is loaded; the engine works on the parsed
  requirements. A label selector is the list of its comma-separated requirements, and
  so is a field selector, whose left-hand side is the list of the segments of the dotted
  path.
\<close>

datatype label_requirement =
    LabelExists string
  | LabelNotExists string
  | LabelEquals string string
  | LabelNotEquals string string
  | LabelIn string "string list"
  | LabelNotIn string "string list"

datatype field_requirement =
    FieldEquals "string list" string
  | FieldNotEquals "string list" string

definition labels_of :: "json \<Rightarrow> string \<Rightarrow> json option" where
  "labels_of obj = (case submap ''labels'' obj of None \<Rightarrow> Map.empty | Some kvs \<Rightarrow> map_of kvs)"

fun label_requirement_holds :: "(string \<Rightarrow> json option) \<Rightarrow> label_requirement \<Rightarrow> bool" where
  "label_requirement_holds labels (LabelExists k) = (labels k \<noteq> None)"
| "label_requirement_holds labels (LabelNotExists k) = (labels k = None)"
| "label_requirement_holds labels (LabelEquals k v) = (labels k = Some (JStr v))"
| "label_requirement_holds labels (LabelNotEquals k v) = (labels k \<noteq> Some (JStr v))"
| "label_requirement_holds labels (LabelIn k vs) = list_ex (\<lambda>v. labels k = Some (JStr v)) vs"
| "label_requirement_holds labels (LabelNotIn k vs) = list_all (\<lambda>v. labels k \<noteq> Some (JStr v)) vs"

definition label_selector_matches :: "json \<Rightarrow> label_requirement list \<Rightarrow> bool" where
  "label_selector_matches obj selector = list_all (label_requirement_holds (labels_of obj)) selector"

text \<open>
  A path resolves to a string; numbers and booleans are rendered in their canonical
  text. Each segment is a key of a mapping.
\<close>

fun render :: "json \<Rightarrow> string option" where
  "render (JStr s) = Some s"
| "render (JNum n) = Some (Itoa n)"
| "render (JBool b) = Some (if b then ''true'' else ''false'')"
| "render JNull = None"
| "render (JArr xs) = None"
| "render (JObj kvs) = None"

fun resolve :: "string list \<Rightarrow> json \<Rightarrow> string option" where
  "resolve [] doc = render doc"
| "resolve (segment # rest) doc =
     (case member segment doc of
        None \<Rightarrow> None
      | Some child \<Rightarrow> resolve rest child)"

fun field_requirement_holds :: "json \<Rightarrow> field_requirement \<Rightarrow> bool" where
  "field_requirement_holds obj (FieldEquals p v) = (resolve p obj = Some v)"
| "field_requirement_holds obj (FieldNotEquals p v) = (resolve p obj \<noteq> Some v)"

definition field_selector_matches :: "json \<Rightarrow> field_requirement list \<Rightarrow> bool" where
  "field_selector_matches obj selector = list_all (field_requirement_holds obj) selector"

datatype boolean_operator = AND | OR | XOR

fun combine :: "boolean_operator \<Rightarrow> bool list \<Rightarrow> bool" where
  "combine AND results = list_all (\<lambda>b. b) results"
| "combine OR results = list_ex (\<lambda>b. b) results"
| "combine XOR results = odd (length (filter (\<lambda>b. b) results))"

record matcher =
  label_selectors :: "label_requirement list list"
  field_selectors :: "field_requirement list list"
  operator :: boolean_operator

definition matches :: "matcher \<Rightarrow> json \<Rightarrow> bool" where
  "matches m obj =
     combine (operator m)
       (map (label_selector_matches obj) (label_selectors m)
        @ map (field_selector_matches obj) (field_selectors m))"

section \<open>The patch synthesizer\<close>

text \<open>
  Modelled from the spec: the patch synthesizer of package \<open>graffiti\<close> (section 4.3 and
  the scenarios S1 to S5), which is not among the source files. An operation is an
  \<open>add\<close> or a \<open>replace\<close> with a path and a value.
\<close>

datatype op_kind = Add | Replace

record operation =
  op_name :: op_kind
  op_path :: string
  op_value :: json

text \<open>The empty-patch sentinel, or a patch with at least one operation.\<close>

datatype patch = EmptyPatch | JSONPatch "operation list"

definition escape_char :: "char \<Rightarrow> string" where
  "escape_char c = (if c = CHR ''~'' then ''~0'' else if c = CHR ''/'' then ''~1'' else [c])"

definition escape_key :: "string \<Rightarrow> string" where
  "escape_key k = concat (map escape_char k)"

definition key_path :: "string \<Rightarrow> string \<Rightarrow> string" where
  "key_path base k = base @ ''/'' @ escape_key k"

definition desired_submap :: "(string \<times> string) list \<Rightarrow> json" where
  "desired_submap desired = JObj (map (\<lambda>(k, v). (k, JStr v)) desired)"

text \<open>
  Rule 1: the submap is missing on the object; one \<open>add\<close> creates it with everything
  desired. Nothing is emitted for a submap for which nothing is desired (scenarios S1
  to S3 expect no operation on the annotations).
\<close>

definition create_ops :: "string \<Rightarrow> (string \<times> json) list option \<Rightarrow> (string \<times> string) list \<Rightarrow> operation list" where
  "create_ops base current desired =
     (case current of
        None \<Rightarrow>
          if desired = [] then []
          else [\<lparr>op_name = Add, op_path = base, op_value = desired_submap desired\<rparr>]
      | Some existing \<Rightarrow> [])"

text \<open>Rule 2: the submap exists; each desired key is added, left alone or replaced.\<close>

definition add_ops :: "string \<Rightarrow> (string \<times> json) list option \<Rightarrow> (string \<times> string) list \<Rightarrow> operation list" where
  "add_ops base current desired =
     (case current of
        None \<Rightarrow> []
      | Some existing \<Rightarrow>
          map (\<lambda>(k, v). \<lparr>op_name = Add, op_path = key_path base k, op_value = JStr v\<rparr>)
            (filter (\<lambda>(k, v). map_of existing k = None) desired))"

definition replace_ops :: "string \<Rightarrow> (string \<times> json) list option \<Rightarrow> (string \<times> string) list \<Rightarrow> operation list" where
  "replace_ops base current desired =
     (case current of
        None \<Rightarrow> []
      | Some existing \<Rightarrow>
          map (\<lambda>(k, v). \<lparr>op_name = Replace, op_path = key_path base k, op_value = JStr v\<rparr>)
            (filter (\<lambda>(k, v). map_of existing k \<noteq> None \<and> map_of existing k \<noteq> Some (JStr v))
               desired))"

definition labels_path :: string where
  "labels_path = ''/metadata/labels''"

definition annotations_path :: string where
  "annotations_path = ''/metadata/annotations''"

text \<open>
  Rule 3: the creations of missing submaps first, then the additions, then the
  replacements, the labels before the annotations and the keys in the order of the
  configuration. Rule 5: no operation gives the sentinel.
\<close>

definition synthesized_ops ::
  "(string \<times> json) list option \<Rightarrow> (string \<times> json) list option \<Rightarrow> Additions \<Rightarrow> operation list" where
  "synthesized_ops labels annotations additions =
     create_ops labels_path labels (Labels additions)
     @ create_ops annotations_path annotations (Annotations additions)
     @ add_ops labels_path labels (Labels additions)
     @ add_ops annotations_path annotations (Annotations additions)
     @ replace_ops labels_path labels (Labels additions)
     @ replace_ops annotations_path annotations (Annotations additions)"

definition synthesize ::
  "(string \<times> json) list option \<Rightarrow> (string \<times> json) list option \<Rightarrow> Additions \<Rightarrow> patch" where
  "synthesize labels annotations additions =
     (case synthesized_ops labels annotations additions of
        [] \<Rightarrow> EmptyPatch
      | first # others \<Rightarrow> JSONPatch (first # others))"

section \<open>The rule engine\<close>

text \<open>
  Modelled from the spec: the rule engine of package \<open>graffiti\<close> (section 4.4), which is
  not among the source files. The matcher decides; on a match the synthesizer works on
  the two submaps of the object and the additions of the rule.
\<close>

record engine_rule =
  rule_name :: string
  rule_matcher :: matcher
  rule_additions :: Additions

definition Engine :: "engine_rule \<Rightarrow> json \<Rightarrow> patch" where
  "Engine rule obj =
     (if matches (rule_matcher rule) obj
      then synthesize (submap ''labels'' obj) (submap ''annotations'' obj) (rule_additions rule)
      else EmptyPatch)"

definition patch_operations :: "patch \<Rightarrow> operation list" where
  "patch_operations p = (case p of EmptyPatch \<Rightarrow> [] | JSONPatch ops \<Rightarrow> ops)"

section \<open>Applying a patch\<close>

text \<open>
  Modelled from the spec: the application of a patch, which the platform does and no
  source file contains (section 6 and the glossary: JSON-Patch with its standard
  semantics). A path is a JSON
  pointer: tokens that each follow a slash, with \<open>~1\<close> for a slash and \<open>~0\<close> for a tilde
  inside a token.
\<close>

fun unescape :: "string \<Rightarrow> string option" where
  "unescape [] = Some []"
| "unescape [c] = (if c = CHR ''~'' then None else Some [c])"
| "unescape (c # d # rest) =
     (if c = CHR ''~''
      then (if d = CHR ''0'' then map_option (\<lambda>s. CHR ''~'' # s) (unescape rest)
            else if d = CHR ''1'' then map_option (\<lambda>s. CHR ''/'' # s) (unescape rest)
            else None)
      else map_option (\<lambda>s. c # s) (unescape (d # rest)))"

function parse_pointer :: "string \<Rightarrow> string list option" where
  "parse_pointer [] = Some []"
| "parse_pointer (c # cs) =
     (if c \<noteq> CHR ''/'' then None
      else (case unescape (takeWhile (\<lambda>x. x \<noteq> CHR ''/'') cs) of
              None \<Rightarrow> None
            | Some token \<Rightarrow>
               (case parse_pointer (dropWhile (\<lambda>x. x \<noteq> CHR ''/'') cs) of
                  None \<Rightarrow> None
                | Some tokens \<Rightarrow> Some (token # tokens))))"
  by pat_completeness auto
termination
  by (relation "measure length") (auto simp: length_dropWhile_le less_Suc_eq_le)

text \<open>An index into a sequence: decimal digits without a leading zero.\<close>

definition parse_index :: "string \<Rightarrow> nat option" where
  "parse_index token =
     (if token = [] \<or> (length token > 1 \<and> hd token = CHR ''0'')
         \<or> \<not> list_all (\<lambda>c. c \<in> set ''0123456789'') token
      then None
      else Some (foldl (\<lambda>n c. 10 * n + (of_char c - 48)) 0 token))"

text \<open>
  \<open>add\<close> sets a member of a mapping, whether it exists or not, or inserts into a
  sequence; \<open>replace\<close> needs the target to exist. Every container on the way to the target
  has to exist: neither operation creates one.
\<close>

fun set_at :: "op_kind \<Rightarrow> string list \<Rightarrow> json \<Rightarrow> json \<Rightarrow> json option" where
  "set_at k [] new doc = Some new"
| "set_at k [token] new (JObj kvs) =
     (if k = Replace \<and> map_of kvs token = None then None
      else Some (JObj (AList.update token new kvs)))"
| "set_at k [token] new (JArr xs) =
     (if k = Add \<and> token = ''-'' then Some (JArr (xs @ [new]))
      else (case parse_index token of
              None \<Rightarrow> None
            | Some i \<Rightarrow>
               if k = Add then (if i \<le> length xs then Some (JArr (take i xs @ new # drop i xs)) else None)
               else (if i < length xs then Some (JArr (xs[i := new])) else None)))"
| "set_at k (token # next # rest) new (JObj kvs) =
     (case map_of kvs token of
        None \<Rightarrow> None
      | Some child \<Rightarrow>
         map_option (\<lambda>child'. JObj (AList.update token child' kvs))
           (set_at k (next # rest) new child))"
| "set_at k (token # next # rest) new (JArr xs) =
     (case parse_index token of
        None \<Rightarrow> None
      | Some i \<Rightarrow>
         if i < length xs
         then map_option (\<lambda>child'. JArr (xs[i := child'])) (set_at k (next # rest) new (xs ! i))
         else None)"
| "set_at k (token # rest) new JNull = None"
| "set_at k (token # rest) new (JBool b) = None"
| "set_at k (token # rest) new (JNum n) = None"
| "set_at k (token # rest) new (JStr s) = None"

definition apply_operation :: "operation \<Rightarrow> json \<Rightarrow> json option" where
  "apply_operation operation doc =
     (case parse_pointer (op_path operation) of
        None \<Rightarrow> None
      | Some tokens \<Rightarrow> set_at (op_name operation) tokens (op_value operation) doc)"

fun apply_operations :: "operation list \<Rightarrow> json \<Rightarrow> json option" where
  "apply_operations [] doc = Some doc"
| "apply_operations (operation # rest) doc =
     (case apply_operation operation doc of
        None \<Rightarrow> None
      | Some doc' \<Rightarrow> apply_operations rest doc')"

definition apply_patch :: "patch \<Rightarrow> json \<Rightarrow> json option" where
  "apply_patch p doc = apply_operations (patch_operations p) doc"

text \<open>
  Nothing but the labels and the annotations differs between two objects: every
  top-level field other than \<open>metadata\<close> and every field of \<open>metadata\<close> other than the two
  submaps is the same.
\<close>

definition unchanged_elsewhere :: "json \<Rightarrow> json \<Rightarrow> bool" where
  "unchanged_elsewhere obj obj' \<longleftrightarrow>
     (\<forall>k. k \<noteq> ''metadata'' \<longrightarrow> member k obj' = member k obj) \<and>
     (\<forall>n. n \<noteq> ''labels'' \<and> n \<noteq> ''annotations'' \<longrightarrow>
        metadata_member n obj' = metadata_member n obj)"

text \<open>
  Only the member \<open>name\<close> of \<open>metadata\<close> may differ between two objects that both have
  their metadata.
\<close>

definition only_touches :: "string \<Rightarrow> json \<Rightarrow> json \<Rightarrow> bool" where
  "only_touches name obj obj' \<longleftrightarrow>
     has_metadata obj' \<and>
     (\<forall>k. k \<noteq> ''metadata'' \<longrightarrow> member k obj' = member k obj) \<and>
     (\<forall>n. n \<noteq> name \<longrightarrow> metadata_member n obj' = metadata_member n obj)"

section \<open>Notions for the proofs about patches\<close>

text \<open>
  A submap as the function it denotes, the desired entries written into such a function
  in order, and the content of a submap after each of the three groups of operations
  of a patch, from the submap \<open>current\<close> that the synthesizer saw.
\<close>

definition view :: "string \<Rightarrow> json \<Rightarrow> (string \<rightharpoonup> json) option" where
  "view name obj = map_option map_of (submap name obj)"

definition put_all :: "(string \<times> string) list \<Rightarrow> (string \<rightharpoonup> json) \<Rightarrow> (string \<rightharpoonup> json)" where
  "put_all kvs M = fold (\<lambda>(key, v) M. M(key \<mapsto> JStr v)) kvs M"

definition missing :: "(string \<times> json) list \<Rightarrow> (string \<times> string) list \<Rightarrow> (string \<times> string) list" where
  "missing existing desired = filter (\<lambda>(k, v). map_of existing k = None) desired"

definition differing :: "(string \<times> json) list \<Rightarrow> (string \<times> string) list \<Rightarrow> (string \<times> string) list" where
  "differing existing desired =
     filter (\<lambda>(k, v). map_of existing k \<noteq> None \<and> map_of existing k \<noteq> Some (JStr v)) desired"

definition created :: "(string \<times> json) list option \<Rightarrow> (string \<times> string) list \<Rightarrow> (string \<rightharpoonup> json) option" where
  "created current desired =
     (case current of
        None \<Rightarrow>
          if desired = [] then None
          else Some (map_of (map (\<lambda>(k, v). (k, JStr v)) desired))
      | Some existing \<Rightarrow> Some (map_of existing))"

definition added :: "(string \<times> json) list option \<Rightarrow> (string \<times> string) list \<Rightarrow> (string \<rightharpoonup> json) option" where
  "added current desired =
     (case current of
        None \<Rightarrow> created current desired
      | Some existing \<Rightarrow> Some (put_all (missing existing desired) (map_of existing)))"

definition replaced :: "(string \<times> json) list option \<Rightarrow> (string \<times> string) list \<Rightarrow> (string \<rightharpoonup> json) option" where
  "replaced current desired =
     (case current of
        None \<Rightarrow> created current desired
      | Some existing \<Rightarrow>
          Some (put_all (differing existing desired)
                  (put_all (missing existing desired) (map_of existing))))"

text \<open>Everything desired for a submap is present on the object with the desired value.\<close>

definition satisfied :: "string \<Rightarrow> (string \<times> string) list \<Rightarrow> json \<Rightarrow> bool" where
  "satisfied name desired obj \<longleftrightarrow>
     desired = [] \<or>
     (\<exists>M. view name obj = Some M \<and> (\<forall>(k, v) \<in> set desired. M k = Some (JStr v)))"

section \<open>Example inputs\<close>

text \<open>Concrete configurations on which the theorems below are exercised.\<close>

definition demo_externals :: externals where
  "demo_externals =
     \<lparr>LogLevels = [''debug'' \<mapsto> 0, ''info'' \<mapsto> 1, ''warn'' \<mapsto> 2, ''error'' \<mapsto> 3,
        ''fatal'' \<mapsto> 4, ''panic'' \<mapsto> 5],
      ValidateLabelSelector = (\<lambda>s. None),
      ValidateFieldSelector = (\<lambda>s. None)\<rparr>"

definition demo_viper :: viper where
  "demo_viper =
     \<lparr>overrides = [],
      config = [(''server.namespace'', VStr ''kube-graffiti''), (''server.service'', VStr ''graffiti'')],
      defaults = [],
      configFile = ''/config'',
      configName = []\<rparr>"

definition demo_rule :: "string \<Rightarrow> (string \<times> string) list \<Rightarrow> Rule" where
  "demo_rule n ls =
     \<lparr>Registration = \<lparr>Name = n\<rparr>,
      Matcher = \<lparr>LabelSelectors = [], FieldSelectors = []\<rparr>,
      Additions = \<lparr>Labels = ls, Annotations = []\<rparr>\<rparr>"

definition demo_config :: "string \<Rightarrow> Rule list \<Rightarrow> Configuration" where
  "demo_config lvl rs =
     \<lparr>LogLevel = lvl,
      CheckExisting = False,
      HealthChecker = \<lparr>Port = 8080, Path = ''/healthz''\<rparr>,
      Server = \<lparr>WebhookPort = 8443, CompanyDomain = ''acme.com'', Namespace = ''kube-graffiti'',
        Service = ''graffiti'', CACertPath = ''/ca.pem'', ServerCertPath = ''/key.pem'',
        ServerKeyPath = []\<rparr>,
      Rules = rs\<rparr>"

definition New :: viper where
  "New = \<lparr>overrides = [], config = [], defaults = [], configFile = [], configName = []\<rparr>"

definition demo_decoders :: decoders where
  "demo_decoders =
     \<lparr>ParseInt = (\<lambda>s. None),
      DecodeRules = (\<lambda>val. case val of
          VList xs \<Rightarrow> Inr (map (\<lambda>x. demo_rule (ToString (Some x)) [(''team'', ''blue'')]) xs)
        | _ \<Rightarrow> Inl ''rules: expected a list'')\<rparr>"

definition demo_document :: settings where
  "demo_document =
     [(''log-level'', VStr ''debug''),
      (''server.namespace'', VStr ''kube-graffiti''),
      (''server.service'', VStr ''graffiti''),
      (''rules'', VList [VStr ''a''])]"

definition demo_world :: world where
  "demo_world =
     \<lparr>configFiles = (\<lambda>path. if path = ''/config/graffiti-config.yaml'' then Some demo_document else None),
      readFile = (\<lambda>path. if path = ''/ca-cert'' then Some ''CA'' else None),
      inCluster = True,
      registerHookResult = (\<lambda>r. None),
      initKubeClientsResult = None\<rparr>"

definition demo_flags :: "cfg_value \<Rightarrow> viper" where
  "demo_flags existing =
     New\<lparr>overrides := [(''config'', VStr ''/config/graffiti-config.yaml''),
                       (''check-existing'', existing)]\<rparr>"

definition demo_engine_rule :: "(string \<times> string) list \<Rightarrow> (string \<times> string) list \<Rightarrow> engine_rule" where
  "demo_engine_rule ls ans =
     \<lparr>rule_name = ''team'',
      rule_matcher = \<lparr>label_selectors = [], field_selectors = [], operator = AND\<rparr>,
      rule_additions = \<lparr>Labels = ls, Annotations = ans\<rparr>\<rparr>"

definition demo_object :: json where
  "demo_object =
     JObj [(''kind'', JStr ''Namespace''),
           (''metadata'', JObj [(''name'', JStr ''x''),
                                (''labels'', JObj [(''a'', JStr ''old''), (''b'', JStr ''keep'')])])]"

section \<open>Validation of the rule set\<close>

lemma validateRulesFrom_seen:
  "\<exists>r \<in> set rs. seen (ruleName r) \<noteq> None \<Longrightarrow> validateRulesFrom x seen rs \<noteq> None"
proof (induction rs arbitrary: seen)
  case Nil
  then show ?case by simp
next
  case (Cons r rs)
  show ?case
  proof (cases "seen (ruleName r) \<noteq> None")
    case True
    then show ?thesis by simp
  next
    case False
    with Cons.prems have "\<exists>q \<in> set rs. (seen(ruleName r \<mapsto> True)) (ruleName q) \<noteq> None"
      by auto
    then have "validateRulesFrom x (seen(ruleName r \<mapsto> True)) rs \<noteq> None"
      by (rule Cons.IH)
    then show ?thesis
      by (simp split: option.splits prod.splits)
  qed
qed

lemma validateRulesFrom_duplicate:
  "\<not> distinct (map ruleName rs) \<Longrightarrow> validateRulesFrom x seen rs \<noteq> None"
proof (induction rs arbitrary: seen)
  case Nil
  then show ?case by simp
next
  case (Cons r rs)
  show ?case
  proof (cases "ruleName r \<in> set (map ruleName rs)")
    case True
    then have "\<exists>q \<in> set rs. (seen(ruleName r \<mapsto> True)) (ruleName q) \<noteq> None"
      by auto
    then have "validateRulesFrom x (seen(ruleName r \<mapsto> True)) rs \<noteq> None"
      by (rule validateRulesFrom_seen)
    then show ?thesis
      by (simp split: option.splits prod.splits)
  next
    case False
    with Cons.prems have "\<not> distinct (map ruleName rs)" by simp
    then have "validateRulesFrom x (seen(ruleName r \<mapsto> True)) rs \<noteq> None"
      by (rule Cons.IH)
    then show ?thesis
      by (simp split: option.splits prod.splits)
  qed
qed

lemma validateRulesFrom_no_duplicate_error:
  "distinct (map ruleName rs) \<Longrightarrow> \<forall>r \<in> set rs. seen (ruleName r) = None \<Longrightarrow>
   validateRulesFrom x seen rs \<noteq> Some (DuplicateRuleName n)"
proof (induction rs arbitrary: seen)
  case Nil
  then show ?case by simp
next
  case (Cons r rs)
  from Cons.prems have d: "distinct (map ruleName rs)"
    and fresh: "\<forall>q \<in> set rs. ruleName q \<noteq> ruleName r"
    by (auto simp: image_iff)
  from Cons.prems fresh have "\<forall>q \<in> set rs. (seen(ruleName r \<mapsto> True)) (ruleName q) = None"
    by auto
  with d have "validateRulesFrom x (seen(ruleName r \<mapsto> True)) rs \<noteq> Some (DuplicateRuleName n)"
    by (rule Cons.IH)
  with Cons.prems show ?case
    by (simp split: option.splits prod.splits)
qed

text \<open>
  Claim C6. A rule set in which two rules carry the same name makes \<open>ValidateConfig\<close> return
  an error, whatever the rest of the configuration is; when all rule names are distinct,
  neither \<open>validateRules\<close> nor \<open>ValidateConfig\<close> returns the duplicate-name error.
\<close>

theorem ValidateConfig_duplicate_names:
  "(\<not> distinct (map ruleName (Rules c)) \<longrightarrow> ValidateConfig x v c \<noteq> None) \<and>
   (distinct (map ruleName (Rules c)) \<longrightarrow>
      (\<forall>n. validateRules x c \<noteq> Some (DuplicateRuleName n)) \<and>
      (\<forall>n. ValidateConfig x v c \<noteq> Some (DuplicateRuleName n)))"
proof (intro conjI impI allI)
  assume "\<not> distinct (map ruleName (Rules c))"
  then have "validateRules x c \<noteq> None"
    unfolding validateRules_def by (rule validateRulesFrom_duplicate)
  then show "ValidateConfig x v c \<noteq> None"
    by (simp add: ValidateConfig_def split: option.splits)
next
  fix n
  assume "distinct (map ruleName (Rules c))"
  then show "validateRules x c \<noteq> Some (DuplicateRuleName n)"
    unfolding validateRules_def by (rule validateRulesFrom_no_duplicate_error) simp
next
  fix n
  assume "distinct (map ruleName (Rules c))"
  then have "validateRules x c \<noteq> Some (DuplicateRuleName n)"
    unfolding validateRules_def by (rule validateRulesFrom_no_duplicate_error) simp
  then show "ValidateConfig x v c \<noteq> Some (DuplicateRuleName n)"
    by (auto simp: ValidateConfig_def validateLogArgs_def validateWebhookArgs_def
        split: option.splits if_splits)
qed

theorem ValidateConfig_duplicate_names_witness:
  "\<not> distinct (map ruleName [demo_rule ''a'' [(''k'', ''1'')], demo_rule ''a'' [(''k'', ''2'')]]) \<and>
   ValidateConfig demo_externals demo_viper
     (demo_config ''info'' [demo_rule ''a'' [(''k'', ''1'')], demo_rule ''a'' [(''k'', ''2'')]]) \<noteq> None \<and>
   distinct (map ruleName [demo_rule ''a'' [(''k'', ''1'')], demo_rule ''b'' [(''k'', ''2'')]]) \<and>
   ValidateConfig demo_externals demo_viper
     (demo_config ''info'' [demo_rule ''a'' [(''k'', ''1'')], demo_rule ''b'' [(''k'', ''2'')]])
     \<noteq> Some (DuplicateRuleName ''a'')"
  using
    ValidateConfig_duplicate_names [of
      "demo_config ''info'' [demo_rule ''a'' [(''k'', ''1'')], demo_rule ''a'' [(''k'', ''2'')]]"
      demo_externals demo_viper]
    ValidateConfig_duplicate_names [of
      "demo_config ''info'' [demo_rule ''a'' [(''k'', ''1'')], demo_rule ''b'' [(''k'', ''2'')]]"
      demo_externals demo_viper]
  by (simp add: demo_config_def demo_rule_def)

section \<open>Validation of the log level\<close>

text \<open>
  Claim C9. Whenever the configured log level is not a key of \<open>log.LogLevels\<close>,
  \<open>ValidateConfig\<close> returns the error naming that level (the log level is the first thing
  checked); the log-level check passes exactly for the keys of the table.
\<close>

theorem ValidateConfig_log_level:
  "(LogLevel c \<notin> dom (LogLevels x) \<longrightarrow>
      ValidateConfig x v c = Some (InvalidLogLevel (LogLevel c))) \<and>
   (validateLogArgs x c = None \<longleftrightarrow> LogLevel c \<in> dom (LogLevels x))"
  by (auto simp: ValidateConfig_def validateLogArgs_def split: option.splits)

theorem ValidateConfig_log_level_witness:
  "''verbose'' \<notin> dom (LogLevels demo_externals) \<and>
   ValidateConfig demo_externals demo_viper (demo_config ''verbose'' []) =
     Some (InvalidLogLevel ''verbose'') \<and>
   validateLogArgs demo_externals (demo_config ''info'' []) = None \<and>
   ''info'' \<in> dom (LogLevels demo_externals)"
  using
    ValidateConfig_log_level [of "demo_config ''verbose'' []" demo_externals demo_viper]
    ValidateConfig_log_level [of "demo_config ''info'' []" demo_externals demo_viper]
  by (simp add: demo_config_def demo_externals_def)

section \<open>Validation of the additions\<close>

lemma validateRulesFrom_no_additions:
  "\<exists>r \<in> set rs. Labels (Additions r) = [] \<and> Annotations (Additions r) = [] \<Longrightarrow>
   validateRulesFrom x seen rs \<noteq> None"
proof (induction rs arbitrary: seen)
  case Nil
  then show ?case by simp
next
  case (Cons r rs)
  show ?case
  proof (cases "Labels (Additions r) = [] \<and> Annotations (Additions r) = []")
    case True
    then show ?thesis by simp
  next
    case False
    with Cons.prems have "\<exists>q \<in> set rs. Labels (Additions q) = [] \<and> Annotations (Additions q) = []"
      by auto
    then have "validateRulesFrom x (seen(ruleName r \<mapsto> True)) rs \<noteq> None"
      by (rule Cons.IH)
    then show ?thesis
      by (simp split: option.splits prod.splits)
  qed
qed

lemma validateRulesFrom_reaches:
  "validateRulesFrom x seen pre = None \<Longrightarrow>
   Labels (Additions r) = [] \<Longrightarrow> Annotations (Additions r) = [] \<Longrightarrow>
   validateRulesFrom x seen (pre @ r # post) = Some (NoAdditions (ruleName r))"
proof (induction pre arbitrary: seen)
  case Nil
  then show ?case by simp
next
  case (Cons p pre)
  from Cons.prems(1) have "validateRulesFrom x (seen(ruleName p \<mapsto> True)) pre = None"
    by (simp split: if_splits option.splits prod.splits)
  then have "validateRulesFrom x (seen(ruleName p \<mapsto> True)) (pre @ r # post) =
      Some (NoAdditions (ruleName r))"
    using Cons.prems(2,3) by (rule Cons.IH)
  with Cons.prems(1) show ?case
    by (auto split: if_splits option.splits prod.splits)
qed

lemma validateRulesFrom_with_additions:
  "\<forall>r \<in> set rs. Labels (Additions r) \<noteq> [] \<or> Annotations (Additions r) \<noteq> [] \<Longrightarrow>
   validateRulesFrom x seen rs \<noteq> Some (NoAdditions n)"
proof (induction rs arbitrary: seen)
  case Nil
  then show ?case by simp
next
  case (Cons r rs)
  from Cons.prems have "\<forall>q \<in> set rs. Labels (Additions q) \<noteq> [] \<or> Annotations (Additions q) \<noteq> []"
    by simp
  then have "validateRulesFrom x (seen(ruleName r \<mapsto> True)) rs \<noteq> Some (NoAdditions n)"
    by (rule Cons.IH)
  with Cons.prems show ?case
    by (auto split: option.splits prod.splits)
qed

text \<open>
  Claim C7, as the code has it. The claim says that for every rule without additions
  \<open>ValidateConfig\<close> returns an error identifying that rule. The error returned is that of
  the first check that fails: with two rules without additions only the first is named.
\<close>

theorem ValidateConfig_no_additions_counterexample:
  "Labels (Additions (demo_rule ''second'' [])) = [] \<and>
   Annotations (Additions (demo_rule ''second'' [])) = [] \<and>
   ValidateConfig demo_externals demo_viper
     (demo_config ''info'' [demo_rule ''first'' [], demo_rule ''second'' []]) =
     Some (NoAdditions ''first'')"
  by (simp add: ValidateConfig_def validateLogArgs_def validateWebhookArgs_def validateRules_def
      IsSet_def find_key_def demo_externals_def demo_viper_def demo_config_def demo_rule_def)

text \<open>
  Claim C7, amended. A configuration that holds a rule without labels and without
  annotations to add is always refused by \<open>ValidateConfig\<close>; the error names that rule
  when the log-level and webhook checks pass and the rules before it pass all their checks;
  and when every rule has at least one addition, the no-additions error is never returned.
\<close>

theorem ValidateConfig_no_additions:
  "(r \<in> set (Rules c) \<and> Labels (Additions r) = [] \<and> Annotations (Additions r) = [] \<longrightarrow>
      ValidateConfig x v c \<noteq> None) \<and>
   (Rules c = pre @ r # post \<and> Labels (Additions r) = [] \<and> Annotations (Additions r) = [] \<and>
    validateLogArgs x c = None \<and> validateWebhookArgs v = None \<and>
    validateRulesFrom x Map.empty pre = None \<longrightarrow>
      ValidateConfig x v c = Some (NoAdditions (ruleName r))) \<and>
   ((\<forall>q \<in> set (Rules c). Labels (Additions q) \<noteq> [] \<or> Annotations (Additions q) \<noteq> []) \<longrightarrow>
      (\<forall>n. ValidateConfig x v c \<noteq> Some (NoAdditions n)))"
proof (intro conjI impI allI)
  assume "r \<in> set (Rules c) \<and> Labels (Additions r) = [] \<and> Annotations (Additions r) = []"
  then have "\<exists>q \<in> set (Rules c). Labels (Additions q) = [] \<and> Annotations (Additions q) = []"
    by blast
  then have "validateRules x c \<noteq> None"
    unfolding validateRules_def by (rule validateRulesFrom_no_additions)
  then show "ValidateConfig x v c \<noteq> None"
    by (simp add: ValidateConfig_def split: option.splits)
next
  assume a: "Rules c = pre @ r # post \<and> Labels (Additions r) = [] \<and>
    Annotations (Additions r) = [] \<and> validateLogArgs x c = None \<and>
    validateWebhookArgs v = None \<and> validateRulesFrom x Map.empty pre = None"
  then have "validateRulesFrom x Map.empty (pre @ r # post) = Some (NoAdditions (ruleName r))"
    by (simp add: validateRulesFrom_reaches)
  with a show "ValidateConfig x v c = Some (NoAdditions (ruleName r))"
    by (simp add: ValidateConfig_def validateRules_def)
next
  fix n
  assume "\<forall>q \<in> set (Rules c). Labels (Additions q) \<noteq> [] \<or> Annotations (Additions q) \<noteq> []"
  then have "validateRules x c \<noteq> Some (NoAdditions n)"
    unfolding validateRules_def by (rule validateRulesFrom_with_additions)
  then show "ValidateConfig x v c \<noteq> Some (NoAdditions n)"
    by (auto simp: ValidateConfig_def validateLogArgs_def validateWebhookArgs_def
        split: option.splits if_splits)
qed

theorem ValidateConfig_no_additions_witness:
  "ValidateConfig demo_externals demo_viper
     (demo_config ''info'' [demo_rule ''a'' [(''k'', ''1'')], demo_rule ''b'' []]) =
     Some (NoAdditions ''b'') \<and>
   ValidateConfig demo_externals demo_viper
     (demo_config ''info'' [demo_rule ''a'' [(''k'', ''1'')], demo_rule ''b'' [(''k'', ''2'')]]) \<noteq>
     Some (NoAdditions ''b'')"
  using
    ValidateConfig_no_additions [of "demo_rule ''b'' []"
      "demo_config ''info'' [demo_rule ''a'' [(''k'', ''1'')], demo_rule ''b'' []]"
      demo_externals demo_viper "[demo_rule ''a'' [(''k'', ''1'')]]" "[]"]
    ValidateConfig_no_additions [of "demo_rule ''b'' []"
      "demo_config ''info'' [demo_rule ''a'' [(''k'', ''1'')], demo_rule ''b'' [(''k'', ''2'')]]"
      demo_externals demo_viper "[]" "[]"]
  by (simp add: validateLogArgs_def validateWebhookArgs_def IsSet_def find_key_def
      demo_externals_def demo_viper_def demo_config_def demo_rule_def)

section \<open>Validation of the webhook parameters\<close>

lemma validateWebhookArgs_unset:
  "\<not> IsSet v ''server.namespace'' \<or> \<not> IsSet v ''server.service'' \<Longrightarrow>
   validateWebhookArgs v = Some MissingRequiredParameter"
  by (auto simp: validateWebhookArgs_def)

text \<open>
  Claim C8, as the code has it. The claim says that \<open>ValidateConfig\<close> returns the error
  "missing required parameter" whenever \<open>server.namespace\<close> or \<open>server.service\<close> is not
  set. The log level is checked first: with an unknown log level the error returned is
  the log-level one.
\<close>

theorem ValidateConfig_missing_parameter_counterexample:
  "\<not> IsSet (demo_viper\<lparr>config := []\<rparr>) ''server.namespace'' \<and>
   ValidateConfig demo_externals (demo_viper\<lparr>config := []\<rparr>)
     (demo_config ''verbose'' [demo_rule ''a'' [(''k'', ''1'')]]) =
     Some (InvalidLogLevel ''verbose'') \<and>
   message (InvalidLogLevel ''verbose'') = ''verbose is not a valid log-level''"
  by (simp add: ValidateConfig_def validateLogArgs_def IsSet_def find_key_def
      demo_externals_def demo_viper_def demo_config_def)

text \<open>
  Claim C8, amended. Whenever \<open>server.namespace\<close> or \<open>server.service\<close> is not set,
  \<open>validateWebhookArgs\<close> returns "missing required parameter" and \<open>ValidateConfig\<close> returns
  an error; that error is "missing required parameter" when the log level is a known one.
\<close>

theorem ValidateConfig_missing_parameter:
  assumes "\<not> IsSet v ''server.namespace'' \<or> \<not> IsSet v ''server.service''"
  shows "validateWebhookArgs v = Some MissingRequiredParameter \<and>
    message MissingRequiredParameter = ''missing required parameter'' \<and>
    ValidateConfig x v c \<noteq> None \<and>
    (LogLevel c \<in> dom (LogLevels x) \<longrightarrow> ValidateConfig x v c = Some MissingRequiredParameter)"
  using validateWebhookArgs_unset [OF assms]
  by (auto simp: ValidateConfig_def validateLogArgs_def split: option.splits)

theorem ValidateConfig_missing_parameter_witness:
  "\<not> IsSet (demo_viper\<lparr>config := [(''server.namespace'', VStr ''kube-graffiti'')]\<rparr>) ''server.service'' \<and>
   ValidateConfig demo_externals
     (demo_viper\<lparr>config := [(''server.namespace'', VStr ''kube-graffiti'')]\<rparr>)
     (demo_config ''info'' [demo_rule ''a'' [(''k'', ''1'')]]) = Some MissingRequiredParameter"
proof -
  have unset: "\<not> IsSet (demo_viper\<lparr>config := [(''server.namespace'', VStr ''kube-graffiti'')]\<rparr>)
      ''server.service''"
    by (simp add: IsSet_def find_key_def demo_viper_def)
  have "LogLevel (demo_config ''info'' [demo_rule ''a'' [(''k'', ''1'')]]) \<in> dom (LogLevels demo_externals)"
    by (simp add: demo_config_def demo_externals_def)
  with ValidateConfig_missing_parameter [OF disjI2, OF unset] unset
  show ?thesis by blast
qed

section \<open>Defaults and the loaded configuration\<close>

lemma and_then_Inr:
  "and_then m f = Inr b \<longleftrightarrow> (\<exists>a. m = Inr a \<and> f a = Inr b)"
  by (cases m) (simp_all add: and_then_def)

lemma field_Inr:
  "field fail decode zero v key = Inr a \<Longrightarrow>
   a = (case find_key v key of None \<Rightarrow> zero | Some val \<Rightarrow> the (decode val))"
  by (auto simp: field_def split: option.splits)

lemma decodeServer_paths:
  assumes "decodeServer fail d v = Inr s"
  shows "ServerCertPath s =
      (case find_key v ''server.cert-path'' of None \<Rightarrow> [] | Some val \<Rightarrow> the (decodeString val))"
    and "ServerKeyPath s =
      (case find_key v ''server.key-path'' of None \<Rightarrow> [] | Some val \<Rightarrow> the (decodeString val))"
proof -
  from assms obtain cert key where
    c: "field fail decodeString [] v ''server.cert-path'' = Inr cert" and
    k: "field fail decodeString [] v ''server.key-path'' = Inr key" and
    s: "ServerCertPath s = cert" "ServerKeyPath s = key"
    unfolding decodeServer_def and_then_Inr by auto
  from field_Inr [OF c] s show "ServerCertPath s =
      (case find_key v ''server.cert-path'' of None \<Rightarrow> [] | Some val \<Rightarrow> the (decodeString val))"
    by simp
  from field_Inr [OF k] s show "ServerKeyPath s =
      (case find_key v ''server.key-path'' of None \<Rightarrow> [] | Some val \<Rightarrow> the (decodeString val))"
    by simp
qed

lemma Unmarshal_Server:
  assumes "Unmarshal d v = Inr c"
  shows "decodeServer FailedToUnmarshal d v = Inr (Server c)"
proof -
  from assms have "filter (\<lambda>k. k \<notin> set knownKeys) (AllKeys v) = []"
    by (auto simp: Unmarshal_def split: list.splits)
  with assms show ?thesis
    by (auto simp: Unmarshal_def and_then_Inr)
qed

lemma config_setDefaults_defaults:
  "map_of (defaults (config_setDefaults v0)) ''server.cert-path'' = Some (VStr ''/key.pem'')"
  "map_of (defaults (config_setDefaults v0)) ''server.key-path'' =
     map_of (defaults v0) ''server.key-path''"
  by (simp_all add: config_setDefaults_def SetDefault_def Let_def update_conv')

lemma config_setDefaults_overrides:
  "overrides (config_setDefaults v0) = overrides v0"
  by (simp add: config_setDefaults_def SetDefault_def Let_def)

lemma config_LoadConfig_state:
  assumes "config_LoadConfig d fs file v0 = (v, Return r)"
  shows "overrides v = overrides v0"
    and "defaults v = defaults (config_setDefaults v0)"
    and "fs file = Some (config v)"
    and "r = Unmarshal d v"
  using assms
  by (auto simp: config_LoadConfig_def Let_def ReadInConfig_def SetConfigFile_def
      SetConfigName_def config_setDefaults_overrides config_unmarshalFromViperStrict_def
      split: if_splits option.splits)

text \<open>
  Claim C10, as the code has it. The claim is made for every configuration file that
  sets neither key. viper is one store for the whole process: a value bound from the
  environment takes precedence over the default, and a default registered before
  \<open>LoadConfig\<close> stays. With \<open>server.cert-path\<close> given by the environment the loaded
  certificate path is that value, and with an earlier default for \<open>server.key-path\<close> the
  loaded key path is not empty, although the file sets neither key.
\<close>

theorem config_LoadConfig_cert_and_key_path_counterexample:
  "map_of demo_document ''server.cert-path'' = None \<and>
   map_of demo_document ''server.key-path'' = None \<and>
   snd (config_LoadConfig demo_decoders (configFiles demo_world) ''/config/graffiti-config.yaml''
          (New\<lparr>overrides := [(''server.cert-path'', VStr ''/from-env'')]\<rparr>)) =
     Return (Inr \<lparr>LogLevel = ''debug'', CheckExisting = False,
       HealthChecker = \<lparr>Port = 8080, Path = ''/healthz''\<rparr>,
       Server = \<lparr>WebhookPort = 8443, CompanyDomain = ''acme.com'', Namespace = ''kube-graffiti'',
         Service = ''graffiti'', CACertPath = ''/ca.pem'', ServerCertPath = ''/from-env'',
         ServerKeyPath = []\<rparr>,
       Rules = [demo_rule ''a'' [(''team'', ''blue'')]]\<rparr>) \<and>
   snd (config_LoadConfig demo_decoders (configFiles demo_world) ''/config/graffiti-config.yaml''
          (New\<lparr>defaults := [(''server.key-path'', VStr ''/server-key'')]\<rparr>)) =
     Return (Inr \<lparr>LogLevel = ''debug'', CheckExisting = False,
       HealthChecker = \<lparr>Port = 8080, Path = ''/healthz''\<rparr>,
       Server = \<lparr>WebhookPort = 8443, CompanyDomain = ''acme.com'', Namespace = ''kube-graffiti'',
         Service = ''graffiti'', CACertPath = ''/ca.pem'', ServerCertPath = ''/key.pem'',
         ServerKeyPath = ''/server-key''\<rparr>,
       Rules = [demo_rule ''a'' [(''team'', ''blue'')]]\<rparr>)"
  by (simp add: config_LoadConfig_def Let_def ReadInConfig_def SetConfigFile_def
      config_setDefaults_def SetDefault_def New_def demo_world_def demo_document_def
      config_unmarshalFromViperStrict_def Unmarshal_def AllKeys_def knownKeys_def serverKeys_def
      and_then_def field_def find_key_def decodeHealthChecker_def decodeServer_def
      decodeRules_def demo_decoders_def DefaultLogLevel_def int64_def)

text \<open>
  Claim C10, amended. \<open>setDefaults\<close> of package \<open>config\<close> leaves \<open>/key.pem\<close> as the default
  of \<open>server.cert-path\<close> (the second assignment overwrites \<open>/server.pem\<close>) and does not
  touch the default of \<open>server.key-path\<close>. Hence, when \<open>LoadConfig\<close> returns a
  configuration read from a file that sets neither key, and nothing outside the file set
  them (no flag or environment value for either key, no earlier default for the key
  path), the certificate path of the configuration is \<open>/key.pem\<close> and its key path is
  empty.
\<close>

theorem config_LoadConfig_cert_and_key_path:
  assumes "config_LoadConfig d fs file v0 = (v, Return (Inr c))"
    and "fs file = Some doc"
    and "map_of doc ''server.cert-path'' = None"
    and "map_of doc ''server.key-path'' = None"
    and "map_of (overrides v0) ''server.cert-path'' = None"
    and "map_of (overrides v0) ''server.key-path'' = None"
    and "map_of (defaults v0) ''server.key-path'' = None"
  shows "map_of (defaults (config_setDefaults v0)) ''server.cert-path'' = Some (VStr ''/key.pem'') \<and>
    map_of (defaults (config_setDefaults v0)) ''server.key-path'' = None \<and>
    ServerCertPath (Server c) = ''/key.pem'' \<and>
    ServerKeyPath (Server c) = []"
proof -
  note st = config_LoadConfig_state [OF assms(1)]
  from st(3) assms(2) have doc: "config v = doc" by simp
  have cert: "find_key v ''server.cert-path'' = Some (VStr ''/key.pem'')"
    by (simp add: find_key_def st(1,2) doc assms(3,5) config_setDefaults_defaults)
  have key: "find_key v ''server.key-path'' = None"
    by (simp add: find_key_def st(1,2) doc assms(4,6,7) config_setDefaults_defaults)
  from st(4) have "decodeServer FailedToUnmarshal d v = Inr (Server c)"
    by (simp add: Unmarshal_Server)
  from decodeServer_paths [OF this] cert key
  have "ServerCertPath (Server c) = ''/key.pem''" and "ServerKeyPath (Server c) = []"
    by simp_all
  then show ?thesis
    by (simp add: config_setDefaults_defaults assms(7))
qed

lemma demo_load:
  "\<exists>v c. config_LoadConfig demo_decoders (configFiles demo_world) ''/config/graffiti-config.yaml'' New
     = (v, Return (Inr c))"
  by (simp add: config_LoadConfig_def Let_def ReadInConfig_def SetConfigFile_def
      config_setDefaults_def SetDefault_def New_def demo_world_def demo_document_def
      config_unmarshalFromViperStrict_def Unmarshal_def AllKeys_def knownKeys_def serverKeys_def
      and_then_def field_def find_key_def decodeHealthChecker_def decodeServer_def
      decodeRules_def demo_decoders_def DefaultLogLevel_def)

theorem config_LoadConfig_cert_and_key_path_witness:
  "\<exists>v c. config_LoadConfig demo_decoders (configFiles demo_world) ''/config/graffiti-config.yaml'' New
       = (v, Return (Inr c)) \<and>
     ServerCertPath (Server c) = ''/key.pem'' \<and> ServerKeyPath (Server c) = []"
proof -
  from demo_load obtain v c where
    l: "config_LoadConfig demo_decoders (configFiles demo_world) ''/config/graffiti-config.yaml'' New
      = (v, Return (Inr c))"
    by blast
  have "ServerCertPath (Server c) = ''/key.pem'' \<and> ServerKeyPath (Server c) = []"
    using config_LoadConfig_cert_and_key_path [OF l, of demo_document]
    by (simp add: demo_world_def demo_document_def New_def)
  with l show ?thesis by blast
qed

section \<open>The guard of the existing-object check\<close>

lemma digits_chars: "set (digits n) \<subseteq> set ''0123456789''"
proof (induction n rule: digits.induct)
  case (1 n)
  have nth: "''0123456789'' ! k \<in> set ''0123456789''" if "k < 10" for k
    using that by (intro nth_mem) simp
  show ?case
  proof (cases "n < 10")
    case True
    with nth [of n] show ?thesis
      by (subst digits.simps) simp
  next
    case False
    have "n mod 10 < 10" by simp
    from nth [OF this] 1 False show ?thesis
      by (subst digits.simps) simp
  qed
qed

lemma digits_not_true: "digits n \<noteq> ''true''"
proof
  assume "digits n = ''true''"
  then have "CHR ''t'' \<in> set (digits n)" by simp
  with digits_chars [of n] show False by auto
qed

lemma Itoa_not_true: "Itoa i \<noteq> ''true''"
  by (simp add: Itoa_def digits_not_true)

lemma ToString_true:
  "ToString x = ''true'' \<longleftrightarrow> x = Some (VBool True) \<or> x = Some (VStr ''true'')"
proof (cases x)
  case None
  then show ?thesis by simp
next
  case (Some val)
  then show ?thesis by (cases val) (auto simp: Itoa_not_true)
qed

lemma enabled_iff:
  "(IsSet v key \<and> GetString v key = ''true'') \<longleftrightarrow>
   (find_key v key = Some (VBool True) \<or> find_key v key = Some (VStr ''true''))"
  by (auto simp: IsSet_def GetString_def ToString_true)

lemma enabled_GetBool:
  "find_key v key = Some (VBool True) \<or> find_key v key = Some (VStr ''true'') \<Longrightarrow> GetBool v key"
  by (auto simp: GetBool_def ParseBool_def)

text \<open>
  Claim C1, as the code has it. The claim says that every truthy representation of
  \<open>check-existing\<close> makes \<open>initExistingCheck\<close> run the applier. The setting \<open>TRUE\<close>, given
  as text, reads as true (\<open>GetBool\<close>) and the clients of package \<open>existing\<close> are
  available, yet nothing is called: the guard compares the rendered text with \<open>true\<close>.
\<close>

theorem initExistingCheck_truthy_counterexample:
  "GetBool (demo_flags (VStr ''TRUE'')) ''check-existing'' \<and>
   initKubeClientsResult demo_world = None \<and>
   initExistingCheck demo_world (demo_flags (VStr ''TRUE''))
     (demo_config ''info'' [demo_rule ''a'' [(''team'', ''blue'')]]) = (None, [])"
  by (simp add: GetBool_def ParseBool_def initExistingCheck_def IsSet_def GetString_def
      find_key_def demo_flags_def New_def demo_world_def)

text \<open>
  Claim C1, amended. \<open>initExistingCheck\<close> calls the applier exactly when
  \<open>check-existing\<close> is set to the boolean true or to the text \<open>true\<close> (the values that
  \<open>GetString\<close> renders as \<open>true\<close>) and \<open>existing.InitKubeClients\<close> succeeds; the same test
  on the setting decides the field \<open>CheckExisting\<close> of the loaded configuration. Whenever
  the applier is called the setting reads as true, and when the setting is absent or
  reads as false nothing is called and no error is returned.
\<close>

theorem initExistingCheck_applier:
  "((\<exists>names. ApplyRulesAgainstExistingObjects names \<in> set (snd (initExistingCheck w v c))) \<longleftrightarrow>
      (find_key v ''check-existing'' = Some (VBool True) \<or>
       find_key v ''check-existing'' = Some (VStr ''true'')) \<and>
      initKubeClientsResult w = None) \<and>
   (cmd_unmarshalFromViperStrict d v = Inr c' \<longrightarrow>
      CheckExisting c' =
        (find_key v ''check-existing'' = Some (VBool True) \<or>
         find_key v ''check-existing'' = Some (VStr ''true''))) \<and>
   ((\<exists>names. ApplyRulesAgainstExistingObjects names \<in> set (snd (initExistingCheck w v c))) \<longrightarrow>
      GetBool v ''check-existing'') \<and>
   (\<not> GetBool v ''check-existing'' \<longrightarrow> initExistingCheck w v c = (None, []))"
proof -
  let ?on = "find_key v ''check-existing'' = Some (VBool True) \<or>
    find_key v ''check-existing'' = Some (VStr ''true'')"
  have guard: "(\<not> IsSet v ''check-existing'' \<or> GetString v ''check-existing'' \<noteq> ''true'') \<longleftrightarrow> \<not> ?on"
    using enabled_iff [of v "''check-existing''"] by blast
  have run: "(\<exists>names. ApplyRulesAgainstExistingObjects names \<in> set (snd (initExistingCheck w v c)))
      \<longleftrightarrow> ?on \<and> initKubeClientsResult w = None"
    unfolding initExistingCheck_def guard by (auto split: option.splits)
  have field: "CheckExisting c' = ?on" if "cmd_unmarshalFromViperStrict d v = Inr c'"
  proof -
    from that have "CheckExisting c' =
        (if \<not> IsSet v ''check-existing'' \<or> GetString v ''check-existing'' \<noteq> ''true''
         then False else True)"
      by (auto simp: cmd_unmarshalFromViperStrict_def and_then_Inr)
    then show ?thesis unfolding guard by auto
  qed
  have off: "initExistingCheck w v c = (None, [])" if "\<not> GetBool v ''check-existing''"
  proof -
    from that enabled_GetBool [of v "''check-existing''"] have "\<not> ?on" by blast
    then show ?thesis unfolding initExistingCheck_def guard by simp
  qed
  from run field off enabled_GetBool [of v "''check-existing''"] show ?thesis by blast
qed

theorem initExistingCheck_applier_witness:
  "initExistingCheck demo_world (demo_flags (VBool True))
     (demo_config ''info'' [demo_rule ''a'' [(''team'', ''blue'')]]) =
     (None, [InitKubeClients, ApplyRulesAgainstExistingObjects [''a'']]) \<and>
   find_key (demo_flags (VBool True)) ''check-existing'' = Some (VBool True) \<and>
   initKubeClientsResult demo_world = None \<and>
   GetBool (demo_flags (VBool True)) ''check-existing'' \<and>
   \<not> GetBool (demo_flags (VStr ''no'')) ''check-existing'' \<and>
   initExistingCheck demo_world (demo_flags (VStr ''no''))
     (demo_config ''info'' [demo_rule ''a'' [(''team'', ''blue'')]]) = (None, [])"
  using
    initExistingCheck_applier [of demo_world "demo_flags (VBool True)"
      "demo_config ''info'' [demo_rule ''a'' [(''team'', ''blue'')]]" demo_decoders
      "demo_config ''info'' []"]
    initExistingCheck_applier [of demo_world "demo_flags (VStr ''no'')"
      "demo_config ''info'' [demo_rule ''a'' [(''team'', ''blue'')]]" demo_decoders
      "demo_config ''info'' []"]
  by (simp add: initExistingCheck_def IsSet_def GetString_def GetBool_def ParseBool_def
      find_key_def demo_flags_def New_def demo_world_def demo_config_def demo_rule_def)

section \<open>The order of startup\<close>

lemma registerHooks_calls:
  "registerHooks w rs = (result, calls) \<Longrightarrow>
   (\<forall>e \<in> set calls. \<exists>n. e = RegisterHook n) \<and>
   (result = None \<longrightarrow> calls = map (\<lambda>rule. RegisterHook (ruleName rule)) rs)"
proof (induction rs arbitrary: result calls)
  case Nil
  then show ?case by simp
next
  case (Cons r rs)
  show ?case
  proof (cases "registerHookResult w (Registration r)")
    case (Some err)
    with Cons.prems show ?thesis by auto
  next
    case None
    obtain result' calls' where rest: "registerHooks w rs = (result', calls')"
      by (cases "registerHooks w rs")
    from Cons.IH [OF rest] Cons.prems None rest show ?thesis by auto
  qed
qed

lemma initWebhookServer_calls:
  assumes "initWebhookServer d w v c = (result, served)"
  shows "\<forall>names. ApplyRulesAgainstExistingObjects names \<notin> set served"
    and "result = None \<Longrightarrow>
      StartWebhookServer (GetString v ''server.cert-path'') (GetString v ''server.key-path'')
        \<in> set served"
    and "result = None \<Longrightarrow> \<forall>rule \<in> set (Rules c). RegisterHook (ruleName rule) \<in> set served"
proof -
  obtain result' calls where rh: "registerHooks w (Rules c) = (result', calls)"
    by (cases "registerHooks w (Rules c)")
  note calls = registerHooks_calls [OF rh]
  from assms rh calls show "\<forall>names. ApplyRulesAgainstExistingObjects names \<notin> set served"
    by (auto simp: initWebhookServer_def split: option.splits)
  assume "result = None"
  with assms rh show "StartWebhookServer (GetString v ''server.cert-path'')
      (GetString v ''server.key-path'') \<in> set served"
    by (auto simp: initWebhookServer_def split: option.splits)
  from \<open>result = None\<close> assms rh calls
  show "\<forall>rule \<in> set (Rules c). RegisterHook (ruleName rule) \<in> set served"
    by (auto simp: initWebhookServer_def split: option.splits)
qed

lemma initExistingCheck_calls:
  "snd (initExistingCheck w v c) = [] \<or>
   snd (initExistingCheck w v c) = [InitKubeClients] \<or>
   snd (initExistingCheck w v c) =
     [InitKubeClients, ApplyRulesAgainstExistingObjects (map ruleName (Rules c))]"
  by (simp add: initExistingCheck_def split: option.splits)

lemma last_call_unique:
  assumes "\<forall>names. ApplyRulesAgainstExistingObjects names \<notin> set xs"
    and "xs @ [ApplyRulesAgainstExistingObjects n] =
      before @ ApplyRulesAgainstExistingObjects m # after"
  shows "before = xs \<and> m = n \<and> after = []"
  using assms
proof (induction xs arbitrary: before)
  case Nil
  then show ?case by (cases before) auto
next
  case (Cons x xs)
  then show ?case by (cases before) auto
qed

lemma runRootCmd_trace:
  assumes "runRootCmd d x w v0 = (trace, e)" and "trace \<noteq> []"
  shows "\<exists>v c port path result served result' checked.
    initWebhookServer d w v c = (result, served) \<and>
    trace = StartHealthChecker port path # served @ checked \<and>
    (checked \<noteq> [] \<longrightarrow> result = None \<and> initExistingCheck w v c = (result', checked))"
  using assms
  by (auto simp: runRootCmd_def Let_def
      split: prod.splits outcome.splits sum.splits option.splits if_splits) blast+

text \<open>
  Claim C2, as the code has it. The claim says that the applier completes before the
  webhook server begins to accept traffic. \<open>runRootCmd\<close> calls \<open>initWebhookServer\<close>
  first: in a run with the check enabled the server is started, the two seconds are
  waited and the rule is registered with the API server before the applier is called.
\<close>

theorem runRootCmd_order_counterexample:
  "runRootCmd demo_decoders demo_externals demo_world (demo_flags (VBool True)) =
     ([StartHealthChecker 8080 ''/healthz'',
       NewServer ''acme.com'' ''kube-graffiti'' ''graffiti'' 8443,
       AddGraffitiRule ''a'',
       StartWebhookServer ''/server-cert'' ''/server-key'',
       Sleep 2,
       RegisterHook ''a'',
       InitKubeClients,
       ApplyRulesAgainstExistingObjects [''a'']],
      WaitingForInterrupt)"
  by (simp add: runRootCmd_def Let_def cmd_loadConfig_def cmd_setDefaults_def SetDefault_def
      SetConfigFile_def ReadInConfig_def cmd_unmarshalFromViperStrict_def UnmarshalKey_def
      GetSection_def in_layer_def section_of_def only_section_def int64_def
      AllKeys_def serverKeys_def and_then_def field_def decodeServer_def decodeHealthChecker_def
      decodeRules_def find_key_def GetString_def GetInt_def IsSet_def DefaultLogLevel_def
      ValidateConfig_def validateLogArgs_def validateWebhookArgs_def validateRules_def
      initWebhookServer_def initExistingCheck_def
      demo_decoders_def demo_externals_def demo_world_def demo_flags_def demo_document_def
      demo_rule_def New_def)

text \<open>
  Claim C2, amended. In every run of \<open>runRootCmd\<close> in which the applier is called, the
  webhook server has been started and every rule has been registered with the API server
  before that call; the call of the applier is the last call of the startup.
\<close>

theorem runRootCmd_order:
  assumes "runRootCmd d x w v0 = (trace, e)"
    and "trace = before @ ApplyRulesAgainstExistingObjects names # after"
  shows "(\<exists>cert key. StartWebhookServer cert key \<in> set before) \<and>
    (\<forall>n \<in> set names. RegisterHook n \<in> set before) \<and>
    InitKubeClients \<in> set before \<and>
    (\<forall>ns. ApplyRulesAgainstExistingObjects ns \<notin> set before) \<and>
    after = []"
proof -
  from assms(2) have "trace \<noteq> []" by simp
  from runRootCmd_trace [OF assms(1) this] obtain v c port path result served result' checked
    where ws: "initWebhookServer d w v c = (result, served)"
      and tr: "trace = StartHealthChecker port path # served @ checked"
      and ch: "checked \<noteq> [] \<longrightarrow> result = None \<and> initExistingCheck w v c = (result', checked)"
    by blast
  note served = initWebhookServer_calls [OF ws]
  have applied: "ApplyRulesAgainstExistingObjects names \<in> set trace"
    using assms(2) by simp
  with tr served(1) have in_checked: "ApplyRulesAgainstExistingObjects names \<in> set checked"
    by auto
  then have ne: "checked \<noteq> []" by auto
  with ch have ok: "result = None" and ec: "initExistingCheck w v c = (result', checked)"
    by simp_all
  from initExistingCheck_calls [of w v c] ec in_checked
  have checked: "checked = [InitKubeClients, ApplyRulesAgainstExistingObjects (map ruleName (Rules c))]"
    by auto
  let ?xs = "StartHealthChecker port path # served @ [InitKubeClients]"
  have none: "\<forall>ns. ApplyRulesAgainstExistingObjects ns \<notin> set ?xs"
    using served(1) by simp
  have "?xs @ [ApplyRulesAgainstExistingObjects (map ruleName (Rules c))] =
      before @ ApplyRulesAgainstExistingObjects names # after"
    using tr checked assms(2) by simp
  from last_call_unique [OF none this]
  have b: "before = ?xs" and n: "names = map ruleName (Rules c)" and a: "after = []"
    by simp_all
  from served(2) [OF ok] b have "\<exists>cert key. StartWebhookServer cert key \<in> set before"
    by auto
  moreover from served(3) [OF ok] b n have "\<forall>n \<in> set names. RegisterHook n \<in> set before"
    by auto
  moreover from b have "InitKubeClients \<in> set before" by simp
  moreover from none b have "\<forall>ns. ApplyRulesAgainstExistingObjects ns \<notin> set before" by simp
  ultimately show ?thesis using a by blast
qed

theorem runRootCmd_order_witness:
  "StartWebhookServer ''/server-cert'' ''/server-key'' \<in>
     set [StartHealthChecker 8080 ''/healthz'',
       NewServer ''acme.com'' ''kube-graffiti'' ''graffiti'' 8443,
       AddGraffitiRule ''a'',
       StartWebhookServer ''/server-cert'' ''/server-key'',
       Sleep 2,
       RegisterHook ''a'',
       InitKubeClients] \<and>
   fst (runRootCmd demo_decoders demo_externals demo_world (demo_flags (VBool True))) =
     [StartHealthChecker 8080 ''/healthz'',
       NewServer ''acme.com'' ''kube-graffiti'' ''graffiti'' 8443,
       AddGraffitiRule ''a'',
       StartWebhookServer ''/server-cert'' ''/server-key'',
       Sleep 2,
       RegisterHook ''a'',
       InitKubeClients] @ ApplyRulesAgainstExistingObjects [''a''] # []"
proof -
  have run: "runRootCmd demo_decoders demo_externals demo_world (demo_flags (VBool True)) =
     ([StartHealthChecker 8080 ''/healthz'',
       NewServer ''acme.com'' ''kube-graffiti'' ''graffiti'' 8443,
       AddGraffitiRule ''a'',
       StartWebhookServer ''/server-cert'' ''/server-key'',
       Sleep 2,
       RegisterHook ''a'',
       InitKubeClients] @ ApplyRulesAgainstExistingObjects [''a''] # [],
      WaitingForInterrupt)"
    by (simp add: runRootCmd_def Let_def cmd_loadConfig_def cmd_setDefaults_def SetDefault_def
      SetConfigFile_def ReadInConfig_def cmd_unmarshalFromViperStrict_def UnmarshalKey_def
      GetSection_def in_layer_def section_of_def only_section_def int64_def
      AllKeys_def serverKeys_def and_then_def field_def decodeServer_def decodeHealthChecker_def
      decodeRules_def find_key_def GetString_def GetInt_def IsSet_def DefaultLogLevel_def
      ValidateConfig_def validateLogArgs_def validateWebhookArgs_def validateRules_def
      initWebhookServer_def initExistingCheck_def
      demo_decoders_def demo_externals_def demo_world_def demo_flags_def demo_document_def
      demo_rule_def New_def)
  from runRootCmd_order [OF run refl] run show ?thesis by simp
qed

section \<open>JSON pointers and the application of operations\<close>

lemma escape_key_Nil: "escape_key [] = []"
  by (simp add: escape_key_def)

lemma escape_key_Cons: "escape_key (c # k) = escape_char c @ escape_key k"
  by (simp add: escape_key_def)

lemma escape_char_no_slash: "CHR ''/'' \<notin> set (escape_char c)"
  by (simp add: escape_char_def)

lemma escape_key_no_slash: "CHR ''/'' \<notin> set (escape_key k)"
  by (induction k) (simp_all add: escape_key_Nil escape_key_Cons escape_char_no_slash)

lemma takeWhile_escape: "takeWhile (\<lambda>x. x \<noteq> CHR ''/'') (escape_key k) = escape_key k"
  using escape_key_no_slash [of k] by (simp add: takeWhile_eq_all_conv) metis

lemma dropWhile_escape: "dropWhile (\<lambda>x. x \<noteq> CHR ''/'') (escape_key k) = []"
  using escape_key_no_slash [of k] by (simp add: dropWhile_eq_Nil_conv) metis

lemma unescape_plain:
  "c \<noteq> CHR ''~'' \<Longrightarrow> unescape (c # s) = map_option (\<lambda>t. c # t) (unescape s)"
  by (cases s) simp_all

lemma unescape_escape: "unescape (escape_key k) = Some k"
proof (induction k)
  case Nil
  then show ?case by (simp add: escape_key_Nil)
next
  case (Cons c k)
  show ?case
  proof (cases "c = CHR ''~''")
    case True
    with Cons.IH show ?thesis by (simp add: escape_key_Cons escape_char_def)
  next
    case False
    show ?thesis
    proof (cases "c = CHR ''/''")
      case True
      with Cons.IH show ?thesis by (simp add: escape_key_Cons escape_char_def)
    next
      case False
      with \<open>c \<noteq> CHR ''~''\<close> have e: "escape_key (c # k) = c # escape_key k"
        by (simp add: escape_key_Cons escape_char_def)
      from \<open>c \<noteq> CHR ''~''\<close> Cons.IH show ?thesis
        by (simp add: e unescape_plain)
    qed
  qed
qed

lemma parse_pointer_token: "parse_pointer (CHR ''/'' # escape_key k) = Some [k]"
  by (simp add: takeWhile_escape dropWhile_escape unescape_escape)

lemma parse_pointer_append:
  "parse_pointer p = Some ts \<Longrightarrow> parse_pointer (CHR ''/'' # q) = Some us \<Longrightarrow>
   parse_pointer (p @ CHR ''/'' # q) = Some (ts @ us)"
proof (induction p arbitrary: ts rule: parse_pointer.induct)
  case 1
  then show ?case by simp
next
  case (2 c cs)
  let ?P = "\<lambda>x. x \<noteq> CHR ''/''"
  have tw: "takeWhile ?P (cs @ CHR ''/'' # q) = takeWhile ?P cs"
    by (induction cs) simp_all
  have dw: "dropWhile ?P (cs @ CHR ''/'' # q) = dropWhile ?P cs @ CHR ''/'' # q"
    by (induction cs) simp_all
  from "2.prems"(1) have c: "c = CHR ''/''"
    by (simp split: if_splits)
  from "2.prems"(1) c obtain token where t: "unescape (takeWhile ?P cs) = Some token"
    by (simp split: option.splits)
  from "2.prems"(1) c t obtain tokens where
    r: "parse_pointer (dropWhile ?P cs) = Some tokens" and ts: "ts = token # tokens"
    by (simp split: option.splits)
  have "\<not> c \<noteq> CHR ''/''" using c by simp
  from "2.IH" [OF this t r "2.prems"(2)]
  have rec: "parse_pointer (dropWhile ?P cs @ CHR ''/'' # q) = Some (tokens @ us)" .
  have "parse_pointer (c # (cs @ CHR ''/'' # q)) = Some (token # tokens @ us)"
    by (subst parse_pointer.simps(2)) (simp only: c tw dw t rec option.case if_False simp_thms)
  then show ?case by (simp only: ts append_Cons)
qed

lemma key_path_tokens:
  assumes "parse_pointer base = Some ts"
  shows "parse_pointer (key_path base k) = Some (ts @ [k])"
proof -
  have "key_path base k = base @ CHR ''/'' # escape_key k"
    by (simp add: key_path_def)
  with parse_pointer_append [OF assms parse_pointer_token [of k]] show ?thesis
    by simp
qed

lemma labels_path_tokens: "parse_pointer labels_path = Some [''metadata'', ''labels'']"
  by (simp add: labels_path_def)

lemma annotations_path_tokens: "parse_pointer annotations_path = Some [''metadata'', ''annotations'']"
  by (simp add: annotations_path_def)
lemma has_metadataE:
  assumes "has_metadata obj"
  obtains top meta where "obj = JObj top" and "map_of top ''metadata'' = Some (JObj meta)"
proof -
  from assms obtain meta where m: "member ''metadata'' obj = Some (JObj meta)"
    unfolding has_metadata_def by (auto elim: as_mapping.elims)
  then obtain top where "obj = JObj top"
    by (cases obj) simp_all
  with m that show thesis by simp
qed

lemma as_mapping_Some: "as_mapping x = Some kvs \<longleftrightarrow> x = Some (JObj kvs)"
  by (auto elim: as_mapping.elims)

lemma only_touches_refl: "has_metadata obj \<Longrightarrow> only_touches n obj obj"
  by (simp add: only_touches_def)

lemma only_touches_trans:
  "only_touches n a b \<Longrightarrow> only_touches n b c \<Longrightarrow> only_touches n a c"
  by (simp add: only_touches_def)

lemma only_touches_submap:
  "only_touches n a b \<Longrightarrow> n' \<noteq> n \<Longrightarrow> submap n' b = submap n' a"
  by (simp add: only_touches_def submap_def)

lemma set_at_submap:
  assumes "has_metadata obj"
  shows "\<exists>obj'. set_at Add [''metadata'', n] new obj = Some obj' \<and>
    only_touches n obj obj' \<and> metadata_member n obj' = Some new"
proof -
  from assms obtain top meta where
    obj: "obj = JObj top" and meta: "map_of top ''metadata'' = Some (JObj meta)"
    by (rule has_metadataE)
  let ?obj' = "JObj (AList.update ''metadata'' (JObj (AList.update n new meta)) top)"
  have "set_at Add [''metadata'', n] new obj = Some ?obj'"
    by (simp add: obj meta)
  moreover have "only_touches n obj ?obj'"
    by (simp add: only_touches_def has_metadata_def metadata_member_def obj meta update_conv')
  moreover have "metadata_member n ?obj' = Some new"
    by (simp add: metadata_member_def update_conv')
  ultimately show ?thesis by blast
qed

lemma set_at_key:
  assumes "has_metadata obj" and "submap n obj = Some m"
    and "k = Replace \<longrightarrow> map_of m key \<noteq> None"
  shows "\<exists>obj'. set_at k [''metadata'', n, key] new obj = Some obj' \<and>
    only_touches n obj obj' \<and> submap n obj' = Some (AList.update key new m)"
proof -
  from assms(1) obtain top meta where
    obj: "obj = JObj top" and meta: "map_of top ''metadata'' = Some (JObj meta)"
    by (rule has_metadataE)
  from assms(2) have sub: "map_of meta n = Some (JObj m)"
    by (simp add: submap_def metadata_member_def obj meta as_mapping_Some)
  let ?obj' = "JObj (AList.update ''metadata''
    (JObj (AList.update n (JObj (AList.update key new m)) meta)) top)"
  have "set_at k [''metadata'', n, key] new obj = Some ?obj'"
    using assms(3) by (simp add: obj meta sub)
  moreover have "only_touches n obj ?obj'"
    by (simp add: only_touches_def has_metadata_def metadata_member_def obj meta update_conv')
  moreover have "submap n ?obj' = Some (AList.update key new m)"
    by (simp add: submap_def metadata_member_def update_conv')
  ultimately show ?thesis by blast
qed

lemma fold_updates:
  "distinct (map fst kvs) \<Longrightarrow>
   fold (\<lambda>(k, v) M. M(k \<mapsto> f v)) kvs M k =
     (case map_of kvs k of Some v \<Rightarrow> Some (f v) | None \<Rightarrow> M k)"
proof (induction kvs arbitrary: M)
  case Nil
  then show ?case by simp
next
  case (Cons kv kvs)
  obtain k0 v0 where kv: "kv = (k0, v0)" by (cases kv)
  from Cons.prems kv have d: "distinct (map fst kvs)" and fresh: "map_of kvs k0 = None"
    by (auto simp: map_of_eq_None_iff)
  from Cons.IH [OF d, of "M(k0 \<mapsto> f v0)"] fresh show ?case
    by (auto simp: kv split: option.splits)
qed

lemma fold_updates_dom:
  "M k \<noteq> None \<Longrightarrow> fold (\<lambda>(k, v) M. M(k \<mapsto> f v)) kvs M k \<noteq> None"
  by (induction kvs arbitrary: M) (auto split: prod.splits)

lemma apply_key_ops:
  assumes base: "parse_pointer base = Some [''metadata'', n]"
  shows "has_metadata obj \<Longrightarrow> submap n obj = Some m \<Longrightarrow>
    (k = Replace \<longrightarrow> (\<forall>key \<in> fst ` set kvs. map_of m key \<noteq> None)) \<Longrightarrow>
    \<exists>obj' m'. apply_operations
        (map (\<lambda>(key, v). \<lparr>op_name = k, op_path = key_path base key, op_value = JStr v\<rparr>) kvs) obj
        = Some obj' \<and>
      only_touches n obj obj' \<and> submap n obj' = Some m' \<and>
      map_of m' = fold (\<lambda>(key, v) M. M(key \<mapsto> JStr v)) kvs (map_of m)"
proof (induction kvs arbitrary: obj m)
  case Nil
  then show ?case by (simp add: only_touches_refl)
next
  case (Cons kv kvs)
  obtain key v where kv: "kv = (key, v)" by (cases kv)
  from Cons.prems(3) kv have pre: "k = Replace \<longrightarrow> map_of m key \<noteq> None"
    by simp
  from set_at_key [OF Cons.prems(1,2) pre, of "JStr v"] obtain obj1 where
    s1: "set_at k [''metadata'', n, key] (JStr v) obj = Some obj1" and
    t1: "only_touches n obj obj1" and
    m1: "submap n obj1 = Some (AList.update key (JStr v) m)"
    by blast
  have step: "apply_operation
      \<lparr>op_name = k, op_path = key_path base key, op_value = JStr v\<rparr> obj = Some obj1"
    using s1 by (simp add: apply_operation_def key_path_tokens [OF base])
  from t1 have h1: "has_metadata obj1" by (simp add: only_touches_def)
  from Cons.prems(3) have pre1:
    "k = Replace \<longrightarrow> (\<forall>key' \<in> fst ` set kvs. map_of (AList.update key (JStr v) m) key' \<noteq> None)"
    by (auto simp: update_conv')
  from Cons.IH [OF h1 m1 pre1] obtain obj' m' where
    a: "apply_operations
        (map (\<lambda>(key, v). \<lparr>op_name = k, op_path = key_path base key, op_value = JStr v\<rparr>) kvs) obj1
        = Some obj'" and
    t: "only_touches n obj1 obj'" and
    s: "submap n obj' = Some m'" and
    f: "map_of m' = fold (\<lambda>(key, v) M. M(key \<mapsto> JStr v)) kvs
          (map_of (AList.update key (JStr v) m))"
    by blast
  have "apply_operations
      (map (\<lambda>(key, v). \<lparr>op_name = k, op_path = key_path base key, op_value = JStr v\<rparr>) (kv # kvs)) obj
      = Some obj'"
    using step a by (simp add: kv)
  moreover from t1 t have "only_touches n obj obj'" by (rule only_touches_trans)
  moreover have "map_of m' = fold (\<lambda>(key, v) M. M(key \<mapsto> JStr v)) (kv # kvs) (map_of m)"
    using f by (simp add: kv update_conv')
  ultimately show ?case using s by blast
qed

lemma apply_operations_append:
  "apply_operations (xs @ ys) obj =
     (case apply_operations xs obj of None \<Rightarrow> None | Some obj' \<Rightarrow> apply_operations ys obj')"
  by (induction xs arbitrary: obj) (simp_all split: option.splits)
lemma put_all_lookup:
  "distinct (map fst kvs) \<Longrightarrow>
   put_all kvs M k = (case map_of kvs k of Some v \<Rightarrow> Some (JStr v) | None \<Rightarrow> M k)"
  unfolding put_all_def by (rule fold_updates)

lemma put_all_dom: "M k \<noteq> None \<Longrightarrow> put_all kvs M k \<noteq> None"
  unfolding put_all_def by (rule fold_updates_dom)

lemma map_of_filter_distinct:
  assumes "distinct (map fst xs)" and "(k, v) \<in> set xs"
  shows "map_of (filter P xs) k = (if P (k, v) then Some v else None)"
proof (cases "P (k, v)")
  case True
  with assms(2) have "(k, v) \<in> set (filter P xs)" by simp
  moreover have "distinct (map fst (filter P xs))"
    using assms(1) by (rule distinct_map_filter)
  ultimately have "map_of (filter P xs) k = Some v"
    by (simp add: map_of_is_SomeI)
  with True show ?thesis by simp
next
  case False
  have "k \<notin> fst ` set (filter P xs)"
  proof
    assume "k \<in> fst ` set (filter P xs)"
    then obtain v' where in': "(k, v') \<in> set xs" and p: "P (k, v')"
      by auto
    from assms(1) in' assms(2) have "v' = v"
      by (rule eq_key_imp_eq_value)
    with p False show False by simp
  qed
  then have "map_of (filter P xs) k = None"
    by (simp add: map_of_eq_None_iff)
  with False show ?thesis by simp
qed

lemma view_only_touches: "only_touches n' a b \<Longrightarrow> n \<noteq> n' \<Longrightarrow> view n b = view n a"
  by (simp add: view_def only_touches_submap)

lemma view_Some: "view n obj = Some M \<longleftrightarrow> (\<exists>m. submap n obj = Some m \<and> map_of m = M)"
  by (auto simp: view_def)

lemma stage_create:
  assumes base: "parse_pointer base = Some [''metadata'', n]"
    and meta: "has_metadata obj" and cur: "submap n obj = current"
  shows "\<exists>obj'. apply_operations (create_ops base current desired) obj = Some obj' \<and>
    only_touches n obj obj' \<and> view n obj' = created current desired"
proof (cases "current = None \<and> desired \<noteq> []")
  case True
  from set_at_submap [OF meta, of n "desired_submap desired"] obtain obj' where
    s: "set_at Add [''metadata'', n] (desired_submap desired) obj = Some obj'" and
    t: "only_touches n obj obj'" and
    m: "metadata_member n obj' = Some (desired_submap desired)"
    by blast
  from s True have "apply_operations (create_ops base current desired) obj = Some obj'"
    by (simp add: create_ops_def apply_operation_def base)
  moreover from m have "view n obj' = Some (map_of (map (\<lambda>(k, v). (k, JStr v)) desired))"
    by (simp add: view_def submap_def desired_submap_def)
  ultimately show ?thesis using t True by (auto simp: created_def)
next
  case False
  then have "create_ops base current desired = []"
    by (auto simp: create_ops_def split: option.splits)
  moreover from False cur have "view n obj = created current desired"
    by (auto simp: view_def created_def split: option.splits)
  ultimately show ?thesis using meta by (auto simp: only_touches_refl)
qed

lemma stage_keys:
  assumes base: "parse_pointer base = Some [''metadata'', n]"
    and meta: "has_metadata obj" and v: "view n obj = Some M"
    and pre: "k = Replace \<longrightarrow> (\<forall>key \<in> fst ` set kvs. M key \<noteq> None)"
  shows "\<exists>obj'. apply_operations
        (map (\<lambda>(key, v). \<lparr>op_name = k, op_path = key_path base key, op_value = JStr v\<rparr>) kvs) obj
        = Some obj' \<and>
      only_touches n obj obj' \<and> view n obj' = Some (put_all kvs M)"
proof -
  from v obtain m where m: "submap n obj = Some m" and M: "map_of m = M"
    unfolding view_Some by blast
  from pre M have "k = Replace \<longrightarrow> (\<forall>key \<in> fst ` set kvs. map_of m key \<noteq> None)"
    by simp
  from apply_key_ops [OF base meta m this] obtain obj' m' where
    "apply_operations
        (map (\<lambda>(key, v). \<lparr>op_name = k, op_path = key_path base key, op_value = JStr v\<rparr>) kvs) obj
        = Some obj'"
    "only_touches n obj obj'" "submap n obj' = Some m'"
    "map_of m' = fold (\<lambda>(key, v) M. M(key \<mapsto> JStr v)) kvs (map_of m)"
    by blast
  then show ?thesis
    by (auto simp: view_def put_all_def M)
qed

lemma stage_add:
  assumes base: "parse_pointer base = Some [''metadata'', n]"
    and meta: "has_metadata obj" and v: "view n obj = created current desired"
  shows "\<exists>obj'. apply_operations (add_ops base current desired) obj = Some obj' \<and>
    only_touches n obj obj' \<and> view n obj' = added current desired"
proof (cases current)
  case None
  with v meta show ?thesis
    by (simp add: add_ops_def added_def only_touches_refl)
next
  case (Some existing)
  with v have "view n obj = Some (map_of existing)"
    by (simp add: created_def)
  from stage_keys [OF base meta this, of Add "missing existing desired"] Some show ?thesis
    by (simp add: add_ops_def added_def missing_def)
qed

lemma stage_replace:
  assumes base: "parse_pointer base = Some [''metadata'', n]"
    and meta: "has_metadata obj" and v: "view n obj = added current desired"
  shows "\<exists>obj'. apply_operations (replace_ops base current desired) obj = Some obj' \<and>
    only_touches n obj obj' \<and> view n obj' = replaced current desired"
proof (cases current)
  case None
  with v meta show ?thesis
    by (simp add: replace_ops_def replaced_def added_def only_touches_refl)
next
  case (Some existing)
  let ?M = "put_all (missing existing desired) (map_of existing)"
  from Some v have vM: "view n obj = Some ?M"
    by (simp add: added_def)
  have "\<forall>key \<in> fst ` set (differing existing desired). ?M key \<noteq> None"
  proof
    fix key
    assume "key \<in> fst ` set (differing existing desired)"
    then have "map_of existing key \<noteq> None"
      by (auto simp: differing_def)
    then show "?M key \<noteq> None"
      by (rule put_all_dom)
  qed
  then have "Replace = Replace \<longrightarrow> (\<forall>key \<in> fst ` set (differing existing desired). ?M key \<noteq> None)"
    by simp
  from stage_keys [OF base meta vM this] Some show ?thesis
    by (simp add: replace_ops_def replaced_def differing_def)
qed

lemma created_satisfied:
  assumes "distinct (map fst desired)" and "desired \<noteq> []"
  shows "\<forall>(k, v) \<in> set desired.
    map_of (map (\<lambda>(k, v). (k, JStr v)) desired) k = Some (JStr v)"
proof -
  have d: "distinct (map fst (map (\<lambda>(k, v). (k, JStr v)) desired))"
    using assms(1) by (simp add: comp_def case_prod_unfold)
  show ?thesis
  proof (intro ballI, clarify)
    fix k v
    assume "(k, v) \<in> set desired"
    then have "(k, JStr v) \<in> set (map (\<lambda>(k, v). (k, JStr v)) desired)"
      by force
    with d show "map_of (map (\<lambda>(k, v). (k, JStr v)) desired) k = Some (JStr v)"
      by (rule map_of_is_SomeI)
  qed
qed

lemma replaced_satisfied:
  assumes d: "distinct (map fst desired)" and kv: "(k, v) \<in> set desired"
  shows "put_all (differing existing desired)
      (put_all (missing existing desired) (map_of existing)) k = Some (JStr v)"
proof -
  have dm: "distinct (map fst (missing existing desired))"
    unfolding missing_def using d by (rule distinct_map_filter)
  have dd: "distinct (map fst (differing existing desired))"
    unfolding differing_def using d by (rule distinct_map_filter)
  have miss: "map_of (missing existing desired) k =
      (if map_of existing k = None then Some v else None)"
    unfolding missing_def using map_of_filter_distinct [OF d kv] by simp
  have diff: "map_of (differing existing desired) k =
      (if map_of existing k \<noteq> None \<and> map_of existing k \<noteq> Some (JStr v) then Some v else None)"
    unfolding differing_def using map_of_filter_distinct [OF d kv] by simp
  show ?thesis
    by (auto simp: put_all_lookup [OF dd] put_all_lookup [OF dm] miss diff)
qed

lemma replaced_view_satisfied:
  assumes "distinct (map fst desired)" and "view n obj = replaced current desired"
  shows "satisfied n desired obj"
proof (cases "desired = []")
  case True
  then show ?thesis by (simp add: satisfied_def)
next
  case False
  show ?thesis
  proof (cases current)
    case None
    with assms(2) False have
      "view n obj = Some (map_of (map (\<lambda>(k, v). (k, JStr v)) desired))"
      by (simp add: replaced_def created_def)
    with created_satisfied [OF assms(1) False] show ?thesis
      unfolding satisfied_def by blast
  next
    case (Some existing)
    with assms(2) have "view n obj = Some (put_all (differing existing desired)
      (put_all (missing existing desired) (map_of existing)))"
      by (simp add: replaced_def)
    moreover have "\<forall>(k, v) \<in> set desired. put_all (differing existing desired)
      (put_all (missing existing desired) (map_of existing)) k = Some (JStr v)"
      using replaced_satisfied [OF assms(1)] by blast
    ultimately show ?thesis
      unfolding satisfied_def by blast
  qed
qed
lemma only_touches_unchanged:
  "only_touches n a b \<Longrightarrow> n = ''labels'' \<or> n = ''annotations'' \<Longrightarrow> unchanged_elsewhere a b"
  by (auto simp: only_touches_def unchanged_elsewhere_def)

lemma unchanged_elsewhere_trans:
  "unchanged_elsewhere a b \<Longrightarrow> unchanged_elsewhere b c \<Longrightarrow> unchanged_elsewhere a c"
  by (simp add: unchanged_elsewhere_def)

lemma only_touches_metadata: "only_touches n a b \<Longrightarrow> has_metadata b"
  by (simp add: only_touches_def)

lemma synthesized_ops_apply:
  assumes meta: "has_metadata obj"
  shows "\<exists>obj'. apply_operations
        (synthesized_ops (submap ''labels'' obj) (submap ''annotations'' obj) additions) obj
        = Some obj' \<and>
      unchanged_elsewhere obj obj' \<and>
      view ''labels'' obj' = replaced (submap ''labels'' obj) (Labels additions) \<and>
      view ''annotations'' obj' = replaced (submap ''annotations'' obj) (Annotations additions)"
proof -
  let ?L = "submap ''labels'' obj" and ?A = "submap ''annotations'' obj"
  let ?dL = "Labels additions" and ?dA = "Annotations additions"
  note lp = labels_path_tokens and ap = annotations_path_tokens
  have ne: "''labels'' \<noteq> ''annotations''" "''annotations'' \<noteq> ''labels''" by simp_all
  from stage_create [OF lp meta refl, of ?dL] obtain o1 where
    a1: "apply_operations (create_ops labels_path ?L ?dL) obj = Some o1" and
    t1: "only_touches ''labels'' obj o1" and
    l1: "view ''labels'' o1 = created ?L ?dL"
    by blast
  from t1 have s1: "submap ''annotations'' o1 = ?A"
    by (rule only_touches_submap) simp
  from stage_create [OF ap only_touches_metadata [OF t1] s1, of ?dA] obtain o2 where
    a2: "apply_operations (create_ops annotations_path ?A ?dA) o1 = Some o2" and
    t2: "only_touches ''annotations'' o1 o2" and
    n2: "view ''annotations'' o2 = created ?A ?dA"
    by blast
  from view_only_touches [OF t2 ne(1)] l1 have l2: "view ''labels'' o2 = created ?L ?dL"
    by simp
  from stage_add [OF lp only_touches_metadata [OF t2] l2] obtain o3 where
    a3: "apply_operations (add_ops labels_path ?L ?dL) o2 = Some o3" and
    t3: "only_touches ''labels'' o2 o3" and
    l3: "view ''labels'' o3 = added ?L ?dL"
    by blast
  from view_only_touches [OF t3 ne(2)] n2 have n3: "view ''annotations'' o3 = created ?A ?dA"
    by simp
  from stage_add [OF ap only_touches_metadata [OF t3] n3] obtain o4 where
    a4: "apply_operations (add_ops annotations_path ?A ?dA) o3 = Some o4" and
    t4: "only_touches ''annotations'' o3 o4" and
    n4: "view ''annotations'' o4 = added ?A ?dA"
    by blast
  from view_only_touches [OF t4 ne(1)] l3 have l4: "view ''labels'' o4 = added ?L ?dL"
    by simp
  from stage_replace [OF lp only_touches_metadata [OF t4] l4] obtain o5 where
    a5: "apply_operations (replace_ops labels_path ?L ?dL) o4 = Some o5" and
    t5: "only_touches ''labels'' o4 o5" and
    l5: "view ''labels'' o5 = replaced ?L ?dL"
    by blast
  from view_only_touches [OF t5 ne(2)] n4 have n5: "view ''annotations'' o5 = added ?A ?dA"
    by simp
  from stage_replace [OF ap only_touches_metadata [OF t5] n5] obtain o6 where
    a6: "apply_operations (replace_ops annotations_path ?A ?dA) o5 = Some o6" and
    t6: "only_touches ''annotations'' o5 o6" and
    n6: "view ''annotations'' o6 = replaced ?A ?dA"
    by blast
  from view_only_touches [OF t6 ne(1)] l5 have l6: "view ''labels'' o6 = replaced ?L ?dL"
    by simp
  have "apply_operations (synthesized_ops ?L ?A additions) obj = Some o6"
    by (simp add: synthesized_ops_def apply_operations_append a1 a2 a3 a4 a5 a6)
  moreover have "unchanged_elsewhere obj o6"
    using only_touches_unchanged [OF t1] only_touches_unchanged [OF t2]
      only_touches_unchanged [OF t3] only_touches_unchanged [OF t4]
      only_touches_unchanged [OF t5] only_touches_unchanged [OF t6]
    by (simp add: unchanged_elsewhere_def)
  ultimately show ?thesis using l6 n6 by blast
qed

lemma satisfied_no_ops:
  assumes "satisfied n desired obj"
  shows "create_ops base (submap n obj) desired = []"
    and "add_ops base (submap n obj) desired = []"
    and "replace_ops base (submap n obj) desired = []"
proof -
  have "create_ops base (submap n obj) desired = [] \<and>
    add_ops base (submap n obj) desired = [] \<and>
    replace_ops base (submap n obj) desired = []"
  proof (cases "desired = []")
    case True
    then show ?thesis
      by (simp add: create_ops_def add_ops_def replace_ops_def split: option.splits)
  next
    case False
    with assms obtain m where m: "submap n obj = Some m"
      and all: "\<forall>(k, v) \<in> set desired. map_of m k = Some (JStr v)"
      unfolding satisfied_def view_Some by blast
    from all have "filter (\<lambda>(k, v). map_of m k = None) desired = []"
      by (auto simp: filter_empty_conv)
    moreover from all have
      "filter (\<lambda>(k, v). map_of m k \<noteq> None \<and> map_of m k \<noteq> Some (JStr v)) desired = []"
      by (auto simp: filter_empty_conv)
    ultimately show ?thesis
      by (simp add: create_ops_def add_ops_def replace_ops_def m)
  qed
  then show "create_ops base (submap n obj) desired = []"
    and "add_ops base (submap n obj) desired = []"
    and "replace_ops base (submap n obj) desired = []"
    by simp_all
qed

lemma synthesize_satisfied:
  assumes "satisfied ''labels'' (Labels additions) obj"
    and "satisfied ''annotations'' (Annotations additions) obj"
  shows "synthesize (submap ''labels'' obj) (submap ''annotations'' obj) additions = EmptyPatch"
  by (simp add: synthesize_def synthesized_ops_def
      satisfied_no_ops [OF assms(1)] satisfied_no_ops [OF assms(2)])

lemma patch_operations_synthesize:
  "patch_operations (synthesize labels annotations additions) =
     synthesized_ops labels annotations additions"
  by (simp add: patch_operations_def synthesize_def split: list.splits)

lemma Engine_apply:
  assumes "has_metadata obj"
    and "distinct (map fst (Labels (rule_additions rule)))"
    and "distinct (map fst (Annotations (rule_additions rule)))"
  shows "\<exists>obj'. apply_patch (Engine rule obj) obj = Some obj' \<and>
    unchanged_elsewhere obj obj' \<and> Engine rule obj' = EmptyPatch"
proof (cases "matches (rule_matcher rule) obj")
  case False
  then have "Engine rule obj = EmptyPatch"
    by (simp add: Engine_def)
  then show ?thesis
    by (simp add: apply_patch_def patch_operations_def unchanged_elsewhere_def)
next
  case True
  let ?a = "rule_additions rule"
  from synthesized_ops_apply [OF assms(1), of ?a] obtain obj' where
    a: "apply_operations
        (synthesized_ops (submap ''labels'' obj) (submap ''annotations'' obj) ?a) obj = Some obj'" and
    u: "unchanged_elsewhere obj obj'" and
    l: "view ''labels'' obj' = replaced (submap ''labels'' obj) (Labels ?a)" and
    n: "view ''annotations'' obj' = replaced (submap ''annotations'' obj) (Annotations ?a)"
    by blast
  from True a have "apply_patch (Engine rule obj) obj = Some obj'"
    by (simp add: apply_patch_def Engine_def patch_operations_synthesize)
  moreover have "Engine rule obj' = EmptyPatch"
    using synthesize_satisfied [OF replaced_view_satisfied [OF assms(2) l]
        replaced_view_satisfied [OF assms(3) n]]
    by (simp add: Engine_def)
  ultimately show ?thesis using u by blast
qed

section \<open>Idempotence of the rule engine\<close>

text \<open>
  Claim C3, as the specification has it. The claim is made for any object. An object
  without \<open>metadata\<close> has no labels, so the engine emits the creation of
  \<open>/metadata/labels\<close> (rule 1); JSON-Patch does not create the missing \<open>metadata\<close>, and
  the patch cannot be applied: there is no patched object.
\<close>

theorem Engine_idempotent_counterexample:
  "matches (rule_matcher (demo_engine_rule [(''a'', ''1'')] [])) (JObj [(''kind'', JStr ''Namespace'')]) \<and>
   Engine (demo_engine_rule [(''a'', ''1'')] []) (JObj [(''kind'', JStr ''Namespace'')]) =
     JSONPatch [\<lparr>op_name = Add, op_path = ''/metadata/labels'',
                 op_value = JObj [(''a'', JStr ''1'')]\<rparr>] \<and>
   apply_patch (Engine (demo_engine_rule [(''a'', ''1'')] []) (JObj [(''kind'', JStr ''Namespace'')]))
     (JObj [(''kind'', JStr ''Namespace'')]) = None"
  by (simp add: demo_engine_rule_def Engine_def matches_def synthesize_def synthesized_ops_def
      create_ops_def add_ops_def replace_ops_def submap_def metadata_member_def
      desired_submap_def labels_path_def annotations_path_def
      apply_patch_def patch_operations_def apply_operation_def)

text \<open>
  Claim C3, amended. For any object that has a \<open>metadata\<close> mapping and any rule (whose
  additions list each key once, as a mapping does), whether or not the matcher matches,
  the patch of the engine applies to the object, and on the patched object the engine
  produces the empty patch.
\<close>

theorem Engine_idempotent:
  assumes "has_metadata obj"
    and "distinct (map fst (Labels (rule_additions rule)))"
    and "distinct (map fst (Annotations (rule_additions rule)))"
  shows "\<exists>obj'. apply_patch (Engine rule obj) obj = Some obj' \<and> Engine rule obj' = EmptyPatch"
  using Engine_apply [OF assms] by blast

theorem Engine_idempotent_witness:
  "matches (rule_matcher (demo_engine_rule [(''a'', ''new''), (''c'', ''3'')] [(''note'', ''x'')]))
     demo_object \<and>
   Engine (demo_engine_rule [(''a'', ''new''), (''c'', ''3'')] [(''note'', ''x'')]) demo_object \<noteq>
     EmptyPatch \<and>
   (\<exists>obj'. apply_patch
        (Engine (demo_engine_rule [(''a'', ''new''), (''c'', ''3'')] [(''note'', ''x'')]) demo_object)
        demo_object = Some obj' \<and>
      Engine (demo_engine_rule [(''a'', ''new''), (''c'', ''3'')] [(''note'', ''x'')]) obj' = EmptyPatch)"
proof -
  have m: "matches (rule_matcher (demo_engine_rule [(''a'', ''new''), (''c'', ''3'')] [(''note'', ''x'')]))
     demo_object"
    by (simp add: demo_engine_rule_def matches_def)
  have "Engine (demo_engine_rule [(''a'', ''new''), (''c'', ''3'')] [(''note'', ''x'')]) demo_object \<noteq>
     EmptyPatch"
    by (simp add: demo_engine_rule_def demo_object_def Engine_def matches_def synthesize_def
        synthesized_ops_def create_ops_def add_ops_def replace_ops_def submap_def
        metadata_member_def)
  moreover have "has_metadata demo_object"
    by (simp add: has_metadata_def demo_object_def)
  moreover note m
    Engine_idempotent [of demo_object
      "demo_engine_rule [(''a'', ''new''), (''c'', ''3'')] [(''note'', ''x'')]"]
  ultimately show ?thesis
    by (simp add: demo_engine_rule_def)
qed

section \<open>The operations of the synthesizer, key by key\<close>

lemma key_path_inj: "key_path base k = key_path base k' \<Longrightarrow> k = k'"
proof -
  assume "key_path base k = key_path base k'"
  then have "escape_key k = escape_key k'"
    by (simp add: key_path_def)
  then have "unescape (escape_key k) = unescape (escape_key k')"
    by simp
  then show "k = k'"
    by (simp add: unescape_escape)
qed

lemma filter_same_key:
  "distinct (map fst xs) \<Longrightarrow> (k, v) \<in> set xs \<Longrightarrow> filter (\<lambda>kv. fst kv = k) xs = [(k, v)]"
proof (induction xs)
  case Nil
  then show ?case by simp
next
  case (Cons x xs)
  show ?case
  proof (cases "fst x = k")
    case True
    with Cons.prems have "x = (k, v)"
      by (auto simp: image_iff)
    moreover from Cons.prems True have "filter (\<lambda>kv. fst kv = k) xs = []"
      by (auto simp: filter_empty_conv image_iff)
    ultimately show ?thesis by simp
  next
    case False
    with Cons show ?thesis by auto
  qed
qed

lemma key_group_filter:
  assumes "distinct (map fst d)" and "(k, v) \<in> set d"
  shows "filter (\<lambda>operation. op_path operation = key_path base k)
      (map (\<lambda>(key, v). \<lparr>op_name = kind, op_path = key_path base key, op_value = JStr v\<rparr>)
         (filter P d)) =
    (if P (k, v) then [\<lparr>op_name = kind, op_path = key_path base k, op_value = JStr v\<rparr>] else [])"
proof -
  have "filter (\<lambda>operation. op_path operation = key_path base k)
      (map (\<lambda>(key, v). \<lparr>op_name = kind, op_path = key_path base key, op_value = JStr v\<rparr>)
         (filter P d)) =
    map (\<lambda>(key, v). \<lparr>op_name = kind, op_path = key_path base key, op_value = JStr v\<rparr>)
      (filter (\<lambda>kv. fst kv = k) (filter P d))"
    by (auto simp: filter_map comp_def case_prod_unfold dest: key_path_inj intro!: filter_cong arg_cong [where f = "map _"])
  also have "filter (\<lambda>kv. fst kv = k) (filter P d) = filter P (filter (\<lambda>kv. fst kv = k) d)"
    by (auto intro: filter_cong)
  also have "filter (\<lambda>kv. fst kv = k) d = [(k, v)]"
    using assms by (rule filter_same_key)
  finally show ?thesis by simp
qed

lemma filter_none: "\<forall>x \<in> set xs. \<not> P x \<Longrightarrow> filter P xs = []"
  by (simp add: filter_empty_conv)

lemma create_ops_path: "operation \<in> set (create_ops base current desired) \<Longrightarrow> op_path operation = base"
  by (auto simp: create_ops_def split: option.splits if_splits)

lemma add_ops_path:
  "operation \<in> set (add_ops base current desired) \<Longrightarrow> \<exists>key. op_path operation = key_path base key"
  by (auto simp: add_ops_def split: option.splits)

lemma replace_ops_path:
  "operation \<in> set (replace_ops base current desired) \<Longrightarrow> \<exists>key. op_path operation = key_path base key"
  by (auto simp: replace_ops_def split: option.splits)

lemma paths_apart:
  "key_path labels_path k \<noteq> labels_path"
  "key_path labels_path k \<noteq> annotations_path"
  "key_path annotations_path k \<noteq> labels_path"
  "key_path annotations_path k \<noteq> annotations_path"
  "key_path labels_path k \<noteq> key_path annotations_path k'"
  "key_path annotations_path k \<noteq> key_path labels_path k'"
  by (simp_all add: key_path_def labels_path_def annotations_path_def)

lemma labels_key_ops:
  assumes "distinct (map fst (Labels additions))" and "(k, v) \<in> set (Labels additions)"
  shows "filter (\<lambda>operation. op_path operation = key_path labels_path k)
      (synthesized_ops (Some existing) annotations additions) =
    (if map_of existing k = None
     then [\<lparr>op_name = Add, op_path = key_path labels_path k, op_value = JStr v\<rparr>]
     else if map_of existing k = Some (JStr v) then []
     else [\<lparr>op_name = Replace, op_path = key_path labels_path k, op_value = JStr v\<rparr>])"
proof -
  let ?Q = "\<lambda>operation. op_path operation = key_path labels_path k"
  have 1: "filter ?Q (create_ops labels_path (Some existing) (Labels additions)) = []"
    by (simp add: create_ops_def)
  have 2: "filter ?Q (create_ops annotations_path annotations (Annotations additions)) = []"
    by (rule filter_none) (auto dest!: create_ops_path simp: paths_apart)
  have 3: "filter ?Q (add_ops annotations_path annotations (Annotations additions)) = []"
    by (rule filter_none) (auto dest!: add_ops_path simp: paths_apart)
  have 4: "filter ?Q (replace_ops annotations_path annotations (Annotations additions)) = []"
    by (rule filter_none) (auto dest!: replace_ops_path simp: paths_apart)
  have 5: "filter ?Q (add_ops labels_path (Some existing) (Labels additions)) =
      (if map_of existing k = None
       then [\<lparr>op_name = Add, op_path = key_path labels_path k, op_value = JStr v\<rparr>] else [])"
    using key_group_filter [OF assms, of labels_path Add "\<lambda>(k, v). map_of existing k = None"]
    by (simp add: add_ops_def)
  have 6: "filter ?Q (replace_ops labels_path (Some existing) (Labels additions)) =
      (if map_of existing k \<noteq> None \<and> map_of existing k \<noteq> Some (JStr v)
       then [\<lparr>op_name = Replace, op_path = key_path labels_path k, op_value = JStr v\<rparr>] else [])"
    using key_group_filter [OF assms, of labels_path Replace
        "\<lambda>(k, v). map_of existing k \<noteq> None \<and> map_of existing k \<noteq> Some (JStr v)"]
    by (simp add: replace_ops_def)
  show ?thesis
    unfolding synthesized_ops_def filter_append 1 2 3 4 5 6 by auto
qed

lemma annotations_key_ops:
  assumes "distinct (map fst (Annotations additions))" and "(k, v) \<in> set (Annotations additions)"
  shows "filter (\<lambda>operation. op_path operation = key_path annotations_path k)
      (synthesized_ops labels (Some existing) additions) =
    (if map_of existing k = None
     then [\<lparr>op_name = Add, op_path = key_path annotations_path k, op_value = JStr v\<rparr>]
     else if map_of existing k = Some (JStr v) then []
     else [\<lparr>op_name = Replace, op_path = key_path annotations_path k, op_value = JStr v\<rparr>])"
proof -
  let ?Q = "\<lambda>operation. op_path operation = key_path annotations_path k"
  have 1: "filter ?Q (create_ops annotations_path (Some existing) (Annotations additions)) = []"
    by (simp add: create_ops_def)
  have 2: "filter ?Q (create_ops labels_path labels (Labels additions)) = []"
    by (rule filter_none) (auto dest!: create_ops_path simp: paths_apart)
  have 3: "filter ?Q (add_ops labels_path labels (Labels additions)) = []"
    by (rule filter_none) (auto dest!: add_ops_path simp: paths_apart)
  have 4: "filter ?Q (replace_ops labels_path labels (Labels additions)) = []"
    by (rule filter_none) (auto dest!: replace_ops_path simp: paths_apart)
  have 5: "filter ?Q (add_ops annotations_path (Some existing) (Annotations additions)) =
      (if map_of existing k = None
       then [\<lparr>op_name = Add, op_path = key_path annotations_path k, op_value = JStr v\<rparr>] else [])"
    using key_group_filter [OF assms, of annotations_path Add "\<lambda>(k, v). map_of existing k = None"]
    by (simp add: add_ops_def)
  have 6: "filter ?Q (replace_ops annotations_path (Some existing) (Annotations additions)) =
      (if map_of existing k \<noteq> None \<and> map_of existing k \<noteq> Some (JStr v)
       then [\<lparr>op_name = Replace, op_path = key_path annotations_path k, op_value = JStr v\<rparr>] else [])"
    using key_group_filter [OF assms, of annotations_path Replace
        "\<lambda>(k, v). map_of existing k \<noteq> None \<and> map_of existing k \<noteq> Some (JStr v)"]
    by (simp add: replace_ops_def)
  show ?thesis
    unfolding synthesized_ops_def filter_append 1 2 3 4 5 6 by auto
qed

text \<open>
  Claim C4. When the submap exists on the object, the operations of the synthesized
  patch at the escaped path of a desired key are: one \<open>add\<close> with the desired value when
  the key is absent, none when the key is present with that value, and one \<open>replace\<close> with
  the desired value when the key is present with another value. This holds for the labels
  and for the annotations; the additions list each key once, as a mapping does.
\<close>

theorem synthesize_per_key:
  "(labels = Some existing \<and> distinct (map fst (Labels additions)) \<and>
    (k, v) \<in> set (Labels additions) \<longrightarrow>
      filter (\<lambda>operation. op_path operation = ''/metadata/labels/'' @ escape_key k)
        (patch_operations (synthesize labels annotations additions)) =
      (if map_of existing k = None
       then [\<lparr>op_name = Add, op_path = ''/metadata/labels/'' @ escape_key k, op_value = JStr v\<rparr>]
       else if map_of existing k = Some (JStr v) then []
       else [\<lparr>op_name = Replace, op_path = ''/metadata/labels/'' @ escape_key k,
               op_value = JStr v\<rparr>])) \<and>
   (annotations = Some existing \<and> distinct (map fst (Annotations additions)) \<and>
    (k, v) \<in> set (Annotations additions) \<longrightarrow>
      filter (\<lambda>operation. op_path operation = ''/metadata/annotations/'' @ escape_key k)
        (patch_operations (synthesize labels annotations additions)) =
      (if map_of existing k = None
       then [\<lparr>op_name = Add, op_path = ''/metadata/annotations/'' @ escape_key k,
               op_value = JStr v\<rparr>]
       else if map_of existing k = Some (JStr v) then []
       else [\<lparr>op_name = Replace, op_path = ''/metadata/annotations/'' @ escape_key k,
               op_value = JStr v\<rparr>]))"
proof -
  have l: "key_path labels_path k = ''/metadata/labels/'' @ escape_key k"
    by (simp add: key_path_def labels_path_def)
  have a: "key_path annotations_path k = ''/metadata/annotations/'' @ escape_key k"
    by (simp add: key_path_def annotations_path_def)
  show ?thesis
    using labels_key_ops [of additions k v existing annotations]
      annotations_key_ops [of additions k v labels existing]
    unfolding patch_operations_synthesize l a by blast
qed

theorem synthesize_per_key_witness:
  "patch_operations (synthesize
      (Some [(''a'', JStr ''old''), (''b'', JStr ''keep'')]) None
      \<lparr>Labels = [(''a'', ''new''), (''b'', ''keep''), (''my.co/slashy~key'', ''v'')], Annotations = []\<rparr>) =
     [\<lparr>op_name = Add, op_path = ''/metadata/labels/my.co~1slashy~0key'', op_value = JStr ''v''\<rparr>,
      \<lparr>op_name = Replace, op_path = ''/metadata/labels/a'', op_value = JStr ''new''\<rparr>] \<and>
   filter (\<lambda>operation. op_path operation = ''/metadata/labels/'' @ escape_key ''a'')
     (patch_operations (synthesize
        (Some [(''a'', JStr ''old''), (''b'', JStr ''keep'')]) None
        \<lparr>Labels = [(''a'', ''new''), (''b'', ''keep''), (''my.co/slashy~key'', ''v'')],
          Annotations = []\<rparr>)) =
     [\<lparr>op_name = Replace, op_path = ''/metadata/labels/'' @ escape_key ''a'',
        op_value = JStr ''new''\<rparr>]"
proof -
  have "patch_operations (synthesize
      (Some [(''a'', JStr ''old''), (''b'', JStr ''keep'')]) None
      \<lparr>Labels = [(''a'', ''new''), (''b'', ''keep''), (''my.co/slashy~key'', ''v'')], Annotations = []\<rparr>) =
     [\<lparr>op_name = Add, op_path = ''/metadata/labels/my.co~1slashy~0key'', op_value = JStr ''v''\<rparr>,
      \<lparr>op_name = Replace, op_path = ''/metadata/labels/a'', op_value = JStr ''new''\<rparr>]"
    by (simp add: patch_operations_def synthesize_def synthesized_ops_def create_ops_def
        add_ops_def replace_ops_def key_path_def escape_key_def escape_char_def
        labels_path_def annotations_path_def)
  moreover have "filter (\<lambda>operation. op_path operation = ''/metadata/labels/'' @ escape_key ''a'')
     (patch_operations (synthesize
        (Some [(''a'', JStr ''old''), (''b'', JStr ''keep'')]) None
        \<lparr>Labels = [(''a'', ''new''), (''b'', ''keep''), (''my.co/slashy~key'', ''v'')],
          Annotations = []\<rparr>)) =
     [\<lparr>op_name = Replace, op_path = ''/metadata/labels/'' @ escape_key ''a'',
        op_value = JStr ''new''\<rparr>]"
    using synthesize_per_key [of "Some [(''a'', JStr ''old''), (''b'', JStr ''keep'')]"
        "[(''a'', JStr ''old''), (''b'', JStr ''keep'')]"
        "\<lparr>Labels = [(''a'', ''new''), (''b'', ''keep''), (''my.co/slashy~key'', ''v'')],
          Annotations = []\<rparr>" "''a''" "''new''" None]
    by simp
  ultimately show ?thesis by blast
qed

section \<open>The scope of a patch\<close>

lemma key_path_prefix: "prefix base (key_path base k)"
  by (simp add: key_path_def)

lemma synthesized_ops_scope:
  assumes "operation \<in> set (synthesized_ops labels annotations additions)"
  shows "(\<exists>rest. parse_pointer (op_path operation) = Some (''metadata'' # ''labels'' # rest)) \<and>
      prefix labels_path (op_path operation)
    \<or> (\<exists>rest. parse_pointer (op_path operation) = Some (''metadata'' # ''annotations'' # rest)) \<and>
      prefix annotations_path (op_path operation)"
proof -
  from assms consider
    (l) "op_path operation = labels_path" | (a) "op_path operation = annotations_path" |
    (lk) key where "op_path operation = key_path labels_path key" |
    (ak) key where "op_path operation = key_path annotations_path key"
    unfolding synthesized_ops_def
    by (auto dest: create_ops_path add_ops_path replace_ops_path)
  then show ?thesis
  proof cases
    case l
    then show ?thesis by (simp add: labels_path_tokens)
  next
    case a
    then show ?thesis by (simp add: annotations_path_tokens)
  next
    case lk
    then show ?thesis
      by (simp add: key_path_tokens [OF labels_path_tokens] key_path_prefix)
  next
    case ak
    then show ?thesis
      by (simp add: key_path_tokens [OF annotations_path_tokens] key_path_prefix)
  qed
qed

lemma not_an_index: "parse_index ''metadata'' = None" "parse_index ''labels'' = None"
  "parse_index ''annotations'' = None"
  by (simp_all add: parse_index_def)

lemma set_at_below_scalar:
  "as_mapping (Some child) = None \<Longrightarrow> n = ''labels'' \<or> n = ''annotations'' \<Longrightarrow>
   set_at k (n # rest) new child = None"
  by (cases child; cases rest) (auto simp: not_an_index)

lemma set_at_no_metadata:
  assumes "\<not> has_metadata obj" and "n = ''labels'' \<or> n = ''annotations''"
  shows "set_at k (''metadata'' # n # rest) new obj = None"
proof (cases obj)
  case (JObj top)
  show ?thesis
  proof (cases "map_of top ''metadata''")
    case None
    with JObj show ?thesis by simp
  next
    case (Some child)
    with assms(1) JObj have "as_mapping (Some child) = None"
      by (simp add: has_metadata_def)
    from set_at_below_scalar [OF this assms(2)] JObj Some show ?thesis
      by simp
  qed
next
  case (JArr xs)
  then show ?thesis by (simp add: not_an_index)
qed simp_all

lemma synthesized_ops_no_metadata:
  assumes "\<not> has_metadata obj"
    and "operation \<in> set (synthesized_ops labels annotations additions)"
  shows "apply_operation operation obj = None"
  using synthesized_ops_scope [OF assms(2)] set_at_no_metadata [OF assms(1)]
  by (auto simp: apply_operation_def)

lemma synthesized_ops_elsewhere:
  assumes "apply_operations
      (synthesized_ops (submap ''labels'' obj) (submap ''annotations'' obj) additions) obj = Some obj'"
  shows "unchanged_elsewhere obj obj'"
proof (cases "has_metadata obj")
  case True
  from synthesized_ops_apply [OF True, of additions] assms show ?thesis
    by auto
next
  case False
  show ?thesis
  proof (cases "synthesized_ops (submap ''labels'' obj) (submap ''annotations'' obj) additions")
    case Nil
    with assms show ?thesis
      by (simp add: unchanged_elsewhere_def)
  next
    case (Cons first others)
    then have "first \<in> set (synthesized_ops (submap ''labels'' obj) (submap ''annotations'' obj) additions)"
      by simp
    from synthesized_ops_no_metadata [OF False this] Cons assms show ?thesis
      by simp
  qed
qed

text \<open>
  Claim C5. Every operation of a patch that the engine produces has a path that begins
  with \<open>/metadata/labels\<close> or with \<open>/metadata/annotations\<close>; and whenever the patch is
  applied to the object, every top-level field other than \<open>metadata\<close> and every field of
  \<open>metadata\<close> other than the labels and the annotations is what it was.
\<close>

theorem Engine_scope:
  "(\<forall>operation \<in> set (patch_operations (Engine rule obj)).
      prefix ''/metadata/labels'' (op_path operation) \<or>
      prefix ''/metadata/annotations'' (op_path operation)) \<and>
   (\<forall>obj'. apply_patch (Engine rule obj) obj = Some obj' \<longrightarrow> unchanged_elsewhere obj obj')"
proof (cases "matches (rule_matcher rule) obj")
  case False
  then have "Engine rule obj = EmptyPatch"
    by (simp add: Engine_def)
  then show ?thesis
    by (simp add: apply_patch_def patch_operations_def unchanged_elsewhere_def)
next
  case True
  then have ops: "patch_operations (Engine rule obj) =
      synthesized_ops (submap ''labels'' obj) (submap ''annotations'' obj) (rule_additions rule)"
    by (simp add: Engine_def patch_operations_synthesize)
  have "\<forall>operation \<in> set (patch_operations (Engine rule obj)).
      prefix ''/metadata/labels'' (op_path operation) \<or>
      prefix ''/metadata/annotations'' (op_path operation)"
    unfolding ops using synthesized_ops_scope
    by (fastforce simp: labels_path_def annotations_path_def)
  moreover have "\<forall>obj'. apply_patch (Engine rule obj) obj = Some obj' \<longrightarrow>
      unchanged_elsewhere obj obj'"
    unfolding apply_patch_def ops using synthesized_ops_elsewhere by blast
  ultimately show ?thesis by blast
qed

theorem Engine_scope_witness:
  "patch_operations
     (Engine (demo_engine_rule [(''a'', ''new''), (''c'', ''3'')] [(''note'', ''x'')]) demo_object) =
     [\<lparr>op_name = Add, op_path = ''/metadata/annotations'',
        op_value = JObj [(''note'', JStr ''x'')]\<rparr>,
      \<lparr>op_name = Add, op_path = ''/metadata/labels/c'', op_value = JStr ''3''\<rparr>,
      \<lparr>op_name = Replace, op_path = ''/metadata/labels/a'', op_value = JStr ''new''\<rparr>] \<and>
   apply_patch
     (Engine (demo_engine_rule [(''a'', ''new''), (''c'', ''3'')] [(''note'', ''x'')]) demo_object)
     demo_object =
     Some (JObj [(''kind'', JStr ''Namespace''),
                 (''metadata'', JObj [(''name'', JStr ''x''),
                    (''labels'', JObj [(''a'', JStr ''new''), (''b'', JStr ''keep''), (''c'', JStr ''3'')]),
                    (''annotations'', JObj [(''note'', JStr ''x'')])])]) \<and>
   unchanged_elsewhere demo_object
     (JObj [(''kind'', JStr ''Namespace''),
            (''metadata'', JObj [(''name'', JStr ''x''),
               (''labels'', JObj [(''a'', JStr ''new''), (''b'', JStr ''keep''), (''c'', JStr ''3'')]),
               (''annotations'', JObj [(''note'', JStr ''x'')])])])"
proof -
  have ops: "patch_operations
     (Engine (demo_engine_rule [(''a'', ''new''), (''c'', ''3'')] [(''note'', ''x'')]) demo_object) =
     [\<lparr>op_name = Add, op_path = ''/metadata/annotations'',
        op_value = JObj [(''note'', JStr ''x'')]\<rparr>,
      \<lparr>op_name = Add, op_path = ''/metadata/labels/c'', op_value = JStr ''3''\<rparr>,
      \<lparr>op_name = Replace, op_path = ''/metadata/labels/a'', op_value = JStr ''new''\<rparr>]"
    by (simp add: demo_engine_rule_def demo_object_def Engine_def matches_def
        patch_operations_def synthesize_def synthesized_ops_def create_ops_def add_ops_def
        replace_ops_def submap_def metadata_member_def desired_submap_def key_path_def
        escape_key_def escape_char_def labels_path_def annotations_path_def)
  have app: "apply_patch
     (Engine (demo_engine_rule [(''a'', ''new''), (''c'', ''3'')] [(''note'', ''x'')]) demo_object)
     demo_object =
     Some (JObj [(''kind'', JStr ''Namespace''),
                 (''metadata'', JObj [(''name'', JStr ''x''),
                    (''labels'', JObj [(''a'', JStr ''new''), (''b'', JStr ''keep''), (''c'', JStr ''3'')]),
                    (''annotations'', JObj [(''note'', JStr ''x'')])])])"
    unfolding apply_patch_def ops
    by (simp add: apply_operation_def demo_object_def)
  from Engine_scope [of "demo_engine_rule [(''a'', ''new''), (''c'', ''3'')] [(''note'', ''x'')]"
      demo_object] app ops
  show ?thesis by simp
qed

end
